theory Spec2Isabelle
  imports Complex_Main "HOL-Library.AList" "HOL-Library.Multiset"
begin

section \<open>JavaScript values\<close>

text \<open>
  The repository is JavaScript for Node.js.  A JavaScript number is an IEEE double: it is
  \<open>NaN\<close>, an infinity, or a finite double.  Every finite double is a rational number, so
  the finite numbers are embedded in \<^typ>\<open>rat\<close>; the two zeros are identified (the code
  never tells them apart: both are falsy and both are below 1).  Comparisons of doubles
  are exact, and so are the sums and differences the code computes whenever its operands
  are integers below \<open>2^53\<close>, which is the case for the array lengths and for every limit
  that is an integer.
\<close>

datatype number = NaN | NegInf | Finite rat | PosInf

text \<open>The relational operator \<open><\<close> on two numbers: false as soon as one is \<open>NaN\<close>.\<close>

fun num_lt :: "number \<Rightarrow> number \<Rightarrow> bool" where
  "num_lt NaN _ = False"
| "num_lt _ NaN = False"
| "num_lt (Finite a) (Finite b) = (a < b)"
| "num_lt NegInf NegInf = False"
| "num_lt NegInf _ = True"
| "num_lt _ NegInf = False"
| "num_lt PosInf _ = False"
| "num_lt _ PosInf = True"

definition num_gt :: "number \<Rightarrow> number \<Rightarrow> bool" where
  "num_gt a b = num_lt b a"

text \<open>Addition and subtraction of numbers, with the infinities and \<open>NaN\<close> of IEEE 754.\<close>

fun num_neg :: "number \<Rightarrow> number" where
  "num_neg NaN = NaN"
| "num_neg NegInf = PosInf"
| "num_neg (Finite a) = Finite (- a)"
| "num_neg PosInf = NegInf"

fun num_add :: "number \<Rightarrow> number \<Rightarrow> number" where
  "num_add NaN _ = NaN"
| "num_add _ NaN = NaN"
| "num_add (Finite a) (Finite b) = Finite (a + b)"
| "num_add PosInf NegInf = NaN"
| "num_add NegInf PosInf = NaN"
| "num_add PosInf _ = PosInf"
| "num_add _ PosInf = PosInf"
| "num_add NegInf _ = NegInf"
| "num_add _ NegInf = NegInf"

definition num_sub :: "number \<Rightarrow> number \<Rightarrow> number" where
  "num_sub a b = num_add a (num_neg b)"

text \<open>
  An instance of the class \<open>Backup\<close> (Backup.js) has the two fields its constructor sets.
  The field \<open>id\<close> is named \<open>backup_id\<close> here, \<open>id\<close> being the identity function of HOL.
\<close>

record backup =
  backup_id :: string
  created_at :: number

text \<open>
  The values the code handles: the primitives, functions (opaque, named by a label),
  plain objects as lists of properties, arrays, instances of \<open>Backup\<close>, and the error
  objects that are thrown.
\<close>

datatype jsval =
    Undefined
  | Null
  | Boolean bool
  | Number number
  | String string
  | Function string
  | Object "(string \<times> jsval) list"
  | Array "jsval list"
  | BackupInstance backup
  | Error string
  | TypeError string

text \<open>The operator \<open>typeof\<close>.\<close>

fun typeof :: "jsval \<Rightarrow> string" where
  "typeof Undefined = ''undefined''"
| "typeof (Boolean _) = ''boolean''"
| "typeof (Number _) = ''number''"
| "typeof (String _) = ''string''"
| "typeof (Function _) = ''function''"
| "typeof _ = ''object''"

text \<open>Truthiness (\<open>ToBoolean\<close>): what \<open>!v\<close> negates and what \<open>||\<close> tests.\<close>

fun truthy :: "jsval \<Rightarrow> bool" where
  "truthy Undefined = False"
| "truthy Null = False"
| "truthy (Boolean b) = b"
| "truthy (Number n) = (n \<noteq> NaN \<and> n \<noteq> Finite 0)"
| "truthy (String s) = (s \<noteq> [])"
| "truthy _ = True"

text \<open>
  \<open>v < w\<close>.  The code compares numbers with numbers, behind a \<open>typeof\<close> test, and in the
  disk backend an array length with an argument that may be \<open>undefined\<close>; \<open>undefined\<close>
  converts to \<open>NaN\<close>, which makes the comparison false.
\<close>

fun js_lt :: "jsval \<Rightarrow> jsval \<Rightarrow> bool" where
  "js_lt (Number a) (Number b) = num_lt a b"
| "js_lt _ _ = False"

text \<open>
  Reading a property \<open>v.k\<close> of a value that is not \<open>undefined\<close> or \<open>null\<close>: a missing
  property reads as \<open>undefined\<close>.
\<close>

fun js_get :: "jsval \<Rightarrow> string \<Rightarrow> jsval" where
  "js_get (Object ps) k = (case map_of ps k of None \<Rightarrow> Undefined | Some v \<Rightarrow> v)"
| "js_get (BackupInstance b) k =
     (if k = ''id'' then String (backup_id b)
      else if k = ''created_at'' then Number (created_at b)
      else Undefined)"
| "js_get _ k = Undefined"

section \<open>Backup.js\<close>

text \<open>
  The constructor of \<open>Backup\<close> (Backup.js, lines 11 to 25).  A \<open>throw\<close> is the left
  injection, holding the thrown value.
\<close>

definition Backup_constructor :: "jsval \<Rightarrow> jsval \<Rightarrow> jsval + backup" where
  \<open>Backup_constructor i c =
     (if \<not> truthy i \<or> typeof i \<noteq> ''string'' then
        Inl (Error ''new Backup(id, created_at) -> Please provide a valid "id" to identify this backup.'')
      else if \<not> truthy c \<or> typeof c \<noteq> ''number'' \<or> js_lt c (Number (Finite 1)) then
        Inl (Error ''new Backup(id, created_at) -> Please provide a valid "created_at" timestamp (in milliseconds) for this backup.'')
      else
        (case (i, c) of
           (String s, Number n) \<Rightarrow> Inr \<lparr>backup_id = s, created_at = n\<rparr>
         | _ \<Rightarrow> Inl (TypeError ''unreachable'')))\<close>

text \<open>The positive numbers: the finite ones above zero, and \<open>Infinity\<close>.\<close>

definition positive :: "number \<Rightarrow> bool" where
  "positive n = num_gt n (Finite 0)"

section \<open>BackupScheduler.js: the constructor\<close>

text \<open>
  \<open>BackupScheduler\<close> extends Node's \<open>EventEmitter\<close>.  Of the emitter, the state the code
  depends on is the list of listeners of the \<open>'error'\<close> event.  A listener is called with
  the emitted error and either returns (\<open>None\<close>) or throws (\<open>Some\<close> of what it throws).
\<close>

type_synonym listener = "jsval \<Rightarrow> jsval option"

text \<open>
  The fields of a scheduler: the public \<open>options\<close>, the private \<open>#in_flight\<close> and
  \<open>#interval\<close> (the timer of \<open>setInterval\<close>, held with its delay while it is set), and the
  emitter's listeners.
\<close>

record scheduler =
  options :: jsval
  in_flight :: bool
  interval_timer :: "jsval option"
  error_listeners :: "listener list"

text \<open>
  The constructor (S3BackupScheduler.js, lines 220 to 263, and again lines 357 to 400:
  the two revisions of BackupScheduler.js have the same constructor).
\<close>

definition BackupScheduler_constructor :: "jsval \<Rightarrow> jsval + scheduler" where
  \<open>BackupScheduler_constructor opts =
     (if \<not> truthy opts \<or> typeof opts \<noteq> ''object'' then
        Inl (Error ''new BackupScheduler(options) -> Please provide a valid "options" Object.'')
      else if \<not> truthy (js_get opts ''interval'') \<or> typeof (js_get opts ''interval'') \<noteq> ''number''
              \<or> js_lt (js_get opts ''interval'') (Number (Finite 1)) then
        Inl (Error ''new BackupScheduler(options) -> Please provide a valid "interval" (in milliseconds) between each backup.'')
      else if \<not> truthy (js_get opts ''limit'') \<or> typeof (js_get opts ''limit'') \<noteq> ''number''
              \<or> js_lt (js_get opts ''limit'') (Number (Finite 1)) then
        Inl (Error ''new BackupScheduler(options) -> Please provide a valid "limit" (in milliseconds) between each backup.'')
      else if \<not> truthy (js_get opts ''list'') \<or> typeof (js_get opts ''list'') \<noteq> ''function'' then
        Inl (Error ''new BackupScheduler(options) -> Please provide a valid "list" function to list the current backups in the upstream storage.'')
      else if \<not> truthy (js_get opts ''create'') \<or> typeof (js_get opts ''create'') \<noteq> ''function'' then
        Inl (Error ''new BackupScheduler(options) -> Please provide a valid "create" function to generate and upload a backup to the upstream storage.'')
      else if \<not> truthy (js_get opts ''delete'') \<or> typeof (js_get opts ''delete'') \<noteq> ''function'' then
        Inl (Error ''new BackupScheduler(options) -> Please provide a valid "delete" function to delete a backup from the upstream storage.'')
      else
        Inr \<lparr>options = opts, in_flight = False,
             interval_timer = Some (js_get opts ''interval''), error_listeners = []\<rparr>)\<close>

text \<open>\<open>destroy()\<close>: \<open>clearInterval(this.#interval)\<close>.\<close>

definition destroy :: "scheduler \<Rightarrow> scheduler" where
  "destroy s = s\<lparr>interval_timer := None\<rparr>"

text \<open>\<open>on('error', l)\<close> of the emitter: the listener is added after those already there.\<close>

definition on_error :: "listener \<Rightarrow> scheduler \<Rightarrow> scheduler" where
  "on_error l s = s\<lparr>error_listeners := error_listeners s @ [l]\<rparr>"

text \<open>
  What the specification calls an invalid configuration, in its words: the interval is not
  a positive number, or the limit is not a positive integer, or one of the three backend
  operations is missing or not callable.
\<close>

fun positive_number :: "jsval \<Rightarrow> bool" where
  "positive_number (Number n) = positive n"
| "positive_number _ = False"

fun positive_integer :: "jsval \<Rightarrow> bool" where
  "positive_integer (Number (Finite r)) = (0 < r \<and> of_int \<lfloor>r\<rfloor> = r)"
| "positive_integer _ = False"

fun callable :: "jsval \<Rightarrow> bool" where
  "callable (Function _) = True"
| "callable _ = False"

definition spec_invalid_configuration :: "jsval \<Rightarrow> bool" where
  "spec_invalid_configuration opts =
     (\<not> positive_number (js_get opts ''interval'') \<or>
      \<not> positive_integer (js_get opts ''limit'') \<or>
      \<not> callable (js_get opts ''list'') \<or>
      \<not> callable (js_get opts ''create'') \<or>
      \<not> callable (js_get opts ''delete''))"

text \<open>
  What the constructor accepts for the interval and for the limit: a number that is at
  least 1, be it an integer or not, or \<open>Infinity\<close>.
\<close>

fun number_at_least_one :: "jsval \<Rightarrow> bool" where
  "number_at_least_one (Number (Finite r)) = (1 \<le> r)"
| "number_at_least_one (Number PosInf) = True"
| "number_at_least_one _ = False"

text \<open>The values whose \<open>typeof\<close> is \<open>'object'\<close>, but for \<open>null\<close>.\<close>

fun is_object :: "jsval \<Rightarrow> bool" where
  "is_object (Object _) = True"
| "is_object (Array _) = True"
| "is_object (BackupInstance _) = True"
| "is_object (Error _) = True"
| "is_object (TypeError _) = True"
| "is_object _ = False"

section \<open>S3BackupScheduler.js: the constructor\<close>

text \<open>
  The own properties an object spread \<open>{...v}\<close> copies.  The spreads of the code are of
  plain objects or of \<open>undefined\<close> (which spreads to nothing).
\<close>

fun own_properties :: "jsval \<Rightarrow> (string \<times> jsval) list" where
  "own_properties (Object ps) = ps"
| "own_properties _ = []"

text \<open>
  An S3 scheduler is a scheduler with four more fields.  \<open>client\<close> holds the configuration
  the S3 client was created from.
\<close>

record S3BackupScheduler = scheduler +
  name :: jsval
  bucket :: jsval
  prepare :: jsval
  client :: jsval

text \<open>
  The object literal handed to \<open>super\<close> (lines 77 to 90): the caller's options, then the
  seven properties written after the spread, which replace the caller's.
\<close>

definition S3_super_options :: "jsval \<Rightarrow> jsval" where
  "S3_super_options opts =
     Object
       (AList.update ''delete'' (Function ''(backups) => this.delete(backups)'')
       (AList.update ''create'' (Function ''() => this.create()'')
       (AList.update ''list'' (Function ''() => this.list()'')
       (AList.update ''secretAccessKey'' (String ''*******'')
       (AList.update ''accessKeyId'' (String ''*******'')
       (AList.update ''bucket'' (String ''*******'')
       (AList.update ''region'' (String ''*******'')
          (own_properties opts))))))))"

text \<open>The configuration of the S3 client (lines 98 to 106).\<close>

definition S3_client_config :: "jsval \<Rightarrow> jsval" where
  "S3_client_config opts =
     Object
       (AList.update ''credentials''
          (Object
             (AList.update ''secretAccessKey'' (js_get opts ''secretAccessKey'')
             (AList.update ''accessKeyId'' (js_get opts ''accessKeyId'')
                (own_properties (js_get (js_get opts ''client'') ''credentials'')))))
       (AList.update ''region'' (js_get opts ''region'')
          (own_properties (js_get opts ''client''))))"

text \<open>The constructor (S3BackupScheduler.js, lines 37 to 107).\<close>

definition S3BackupScheduler_constructor :: "jsval \<Rightarrow> jsval + S3BackupScheduler" where
  \<open>S3BackupScheduler_constructor opts =
     (if \<not> truthy opts \<or> typeof opts \<noteq> ''object'' then
        Inl (Error ''new S3BackupScheduler(options) -> Please provide a valid "options" Object.'')
      else if \<not> truthy (js_get opts ''bucket'') \<or> typeof (js_get opts ''bucket'') \<noteq> ''string'' then
        Inl (Error ''new S3BackupScheduler(options) -> Please provide a valid bucket name to use for backups.'')
      else if \<not> truthy (js_get opts ''accessKeyId'') \<or> typeof (js_get opts ''accessKeyId'') \<noteq> ''string'' then
        Inl (Error ''new S3BackupScheduler(options) -> Please provide a valid access key ID to access the S3 Bucket / Block storage.'')
      else if \<not> truthy (js_get opts ''secretAccessKey'') \<or> typeof (js_get opts ''secretAccessKey'') \<noteq> ''string'' then
        Inl (Error ''new S3BackupScheduler(options) -> Please provide a valid secret access key to access the S3 Bucket / Block storage.'')
      else if \<not> truthy (js_get opts ''region'') \<or> typeof (js_get opts ''region'') \<noteq> ''string'' then
        Inl (Error ''new S3BackupScheduler(options) -> Please provide a valid region to use for the S3 Bucket / Block storage.'')
      else if \<not> truthy (js_get opts ''name'') \<or> typeof (js_get opts ''name'') \<noteq> ''function'' then
        Inl (Error ''new S3BackupScheduler(options) -> Please provide a naming scheme for the backups. You may provide a string or a function that will be used to dynamically generate the name for each backup.'')
      else if \<not> truthy (js_get opts ''prepare'') \<or> typeof (js_get opts ''prepare'') \<noteq> ''function'' then
        Inl (Error ''new S3BackupScheduler(options) -> Please provide a valid "prepare" function that will be used to prepare each backup.'')
      else
        (case BackupScheduler_constructor (S3_super_options opts) of
           Inl e \<Rightarrow> Inl e
         | Inr s \<Rightarrow>
             Inr (scheduler.extend s
                    (S3BackupScheduler.fields (js_get opts ''name'') (js_get opts ''bucket'')
                       (js_get opts ''prepare'') (S3_client_config opts)))))\<close>

section \<open>Built-ins the cycle uses\<close>

text \<open>\<open>v instanceof Backup\<close> and \<open>Array.isArray(v)\<close>.\<close>

fun instanceof_Backup :: "jsval \<Rightarrow> bool" where
  "instanceof_Backup (BackupInstance _) = True"
| "instanceof_Backup _ = False"

fun isArray :: "jsval \<Rightarrow> bool" where
  "isArray (Array _) = True"
| "isArray _ = False"

fun elements :: "jsval \<Rightarrow> jsval list" where
  "elements (Array xs) = xs"
| "elements _ = []"

text \<open>
  \<open>Array.prototype.find\<close>: the first element the predicate holds of, \<open>undefined\<close> when
  there is none.
\<close>

definition Array_find :: "(jsval \<Rightarrow> bool) \<Rightarrow> jsval list \<Rightarrow> jsval" where
  "Array_find P xs = (case List.find P xs of None \<Rightarrow> Undefined | Some v \<Rightarrow> v)"

text \<open>
  \<open>ToNumber\<close> on the values whose conversion is immediate.  The operands the code
  subtracts are an array length, a limit that the constructor checked to be a number, the
  \<open>created_at\<close> of a backup, and \<open>undefined\<close> (a property that a primitive does not have);
  the conversion of strings and objects is not modelled and stands as \<open>NaN\<close>.
\<close>

fun ToNumber :: "jsval \<Rightarrow> number" where
  "ToNumber (Number n) = n"
| "ToNumber Null = Finite 0"
| "ToNumber (Boolean b) = (if b then Finite 1 else Finite 0)"
| "ToNumber _ = NaN"

text \<open>
  Reading a property throws a \<open>TypeError\<close> on \<open>undefined\<close> and on \<open>null\<close>.
\<close>

definition read_property :: "jsval \<Rightarrow> string \<Rightarrow> jsval + jsval" where
  "read_property v k =
     (if v = Undefined \<or> v = Null then Inl (TypeError ''Cannot read properties of undefined or null'')
      else Inr (js_get v k))"

text \<open>The comparator of the cycle: \<open>(a, b) => a.created_at - b.created_at\<close>.\<close>

definition by_created_at :: "jsval \<Rightarrow> jsval \<Rightarrow> jsval + number" where
  "by_created_at a b =
     (case read_property a ''created_at'' of
        Inl e \<Rightarrow> Inl e
      | Inr x \<Rightarrow>
          (case read_property b ''created_at'' of
             Inl e \<Rightarrow> Inl e
           | Inr y \<Rightarrow> Inr (num_sub (ToNumber x) (ToNumber y))))"

text \<open>
  \<open>Array.prototype.sort\<close> with a comparator.  ECMAScript (since ES2019; the private
  fields of the class need a later edition still) requires the sort to be stable: the
  elements \<open>undefined\<close> go last without being compared, the others are ordered by the
  comparator, a result \<open>NaN\<close> counting as 0, and elements that compare as equal keep their
  order.  With a comparator that is consistent this fixes the result, whatever algorithm
  the engine runs; it is computed here by insertion from the right, and an element goes
  before the first one it does not compare as greater than.  A comparator that throws
  makes the sort throw.
\<close>

fun insert_sorted ::
  "(jsval \<Rightarrow> jsval \<Rightarrow> jsval + number) \<Rightarrow> jsval \<Rightarrow> jsval list \<Rightarrow> jsval + jsval list" where
  "insert_sorted cmp x [] = Inr [x]"
| "insert_sorted cmp x (y # ys) =
     (case cmp x y of
        Inl e \<Rightarrow> Inl e
      | Inr v \<Rightarrow>
          if num_gt v (Finite 0) then
            (case insert_sorted cmp x ys of Inl e \<Rightarrow> Inl e | Inr zs \<Rightarrow> Inr (y # zs))
          else Inr (x # y # ys))"

fun sort_with :: "(jsval \<Rightarrow> jsval \<Rightarrow> jsval + number) \<Rightarrow> jsval list \<Rightarrow> jsval + jsval list" where
  "sort_with cmp [] = Inr []"
| "sort_with cmp (x # xs) =
     (case sort_with cmp xs of Inl e \<Rightarrow> Inl e | Inr ys \<Rightarrow> insert_sorted cmp x ys)"

definition Array_sort ::
  "(jsval \<Rightarrow> jsval \<Rightarrow> jsval + number) \<Rightarrow> jsval list \<Rightarrow> jsval + jsval list" where
  "Array_sort cmp xs =
     (case sort_with cmp (filter (\<lambda>v. v \<noteq> Undefined) xs) of
        Inl e \<Rightarrow> Inl e
      | Inr ys \<Rightarrow> Inr (ys @ filter (\<lambda>v. v = Undefined) xs))"

text \<open>
  \<open>xs.slice(0, end)\<close>: \<open>end\<close> is truncated to an integer (\<open>NaN\<close> to 0); a negative \<open>end\<close>
  counts from the end of the array, and the result stops at the end of the array.
\<close>

definition ToInteger :: "rat \<Rightarrow> int" where
  "ToInteger r = (if 0 \<le> r then \<lfloor>r\<rfloor> else \<lceil>r\<rceil>)"

fun Array_slice_to :: "jsval list \<Rightarrow> number \<Rightarrow> jsval list" where
  "Array_slice_to xs NaN = []"
| "Array_slice_to xs NegInf = []"
| "Array_slice_to xs PosInf = xs"
| "Array_slice_to xs (Finite r) =
     (if ToInteger r < 0 then take (nat (int (length xs) + ToInteger r)) xs
      else take (nat (ToInteger r)) xs)"

section \<open>EventEmitter: emitting the error event\<close>

text \<open>
  What a cycle does that can be observed: the calls of the three backend operations, each
  with its list of arguments, and the calls of the listeners of \<open>'error'\<close>, each with the
  position of the listener and the error it is given.
\<close>

datatype call = Call_list "jsval list" | Call_create "jsval list" | Call_delete "jsval list"

datatype event = Called call | Delivered nat jsval

text \<open>
  \<open>emit('error', e)\<close> of Node's \<open>EventEmitter\<close> (\<open>events\<close> is a module of Node, not of the
  repository; this follows its documentation).  With no listener of \<open>'error'\<close> registered,
  \<open>emit\<close> throws: the error itself when it is an \<open>Error\<close>, an \<open>Error\<close> wrapping it
  otherwise.  With listeners, they are called in the order they were registered, and what a
  listener throws is thrown by \<open>emit\<close>, the later listeners not being called.
\<close>

fun call_listeners :: "listener list \<Rightarrow> nat \<Rightarrow> jsval \<Rightarrow> event list \<times> jsval option" where
  "call_listeners [] i e = ([], None)"
| "call_listeners (l # ls) i e =
     (case l e of
        Some thrown \<Rightarrow> ([Delivered i e], Some thrown)
      | None \<Rightarrow> (case call_listeners ls (Suc i) e of (evs, r) \<Rightarrow> (Delivered i e # evs, r)))"

fun unhandled_error :: "jsval \<Rightarrow> jsval" where
  "unhandled_error (Error m) = Error m"
| "unhandled_error (TypeError m) = TypeError m"
| "unhandled_error _ = Error ''Unhandled error.''"

definition emit_error :: "listener list \<Rightarrow> jsval \<Rightarrow> event list \<times> jsval option" where
  "emit_error ls e = (if ls = [] then ([], Some (unhandled_error e)) else call_listeners ls 0 e)"

section \<open>BackupScheduler.js: the cycle\<close>

text \<open>
  \<open>cycle\<close> is an \<open>async\<close> method: it runs until an \<open>await\<close>, where it has called a backend
  operation and is suspended until the operation settles, by returning a value or by
  throwing (a rejected promise is thrown by \<open>await\<close>).  The body of such a method is a
  tree: it is done with a result, or it awaits a call and goes on with the outcome.
\<close>

datatype outcome = Returns jsval | Throws jsval

datatype 'a prog = Done 'a | Await call "outcome \<Rightarrow> 'a prog"

text \<open>
  Inside the \<open>try\<close> block a result is \<open>Inl e\<close> when \<open>e\<close> was thrown and \<open>Inr ()\<close> when the
  end of the block was reached.  \<open>await\<close> of a call that throws leaves the block.
\<close>

definition await :: "call \<Rightarrow> (jsval \<Rightarrow> (jsval + unit) prog) \<Rightarrow> (jsval + unit) prog" where
  "await c k = Await c (\<lambda>r. case r of Throws e \<Rightarrow> Done (Inl e) | Returns v \<Rightarrow> k v)"

text \<open>
  The test on the result of \<open>list\<close> (line 284, and line 427):
  \<open>!Array.isArray(list) || list.find((backup) => !(backup instanceof Backup))\<close>.
\<close>

definition list_is_rejected :: "jsval \<Rightarrow> bool" where
  "list_is_rejected list =
     (\<not> isArray list \<or> truthy (Array_find (\<lambda>backup. \<not> instanceof_Backup backup) (elements list)))"

text \<open>\<open>sorted.length - this.options.limit + 1\<close>.\<close>

definition overflow_of :: "jsval list \<Rightarrow> jsval \<Rightarrow> number" where
  "overflow_of sorted' opts =
     num_add (num_sub (Finite (of_nat (length sorted'))) (ToNumber (js_get opts ''limit''))) (Finite 1)"

text \<open>
  The \<open>try\<close> block of \<open>cycle\<close> in the first revision of BackupScheduler.js
  (S3BackupScheduler.js, lines 281 to 306): \<open>create\<close> must return a \<open>Backup\<close>.  The
  argument is \<open>this.options\<close>.  Every operation is called with no argument but \<open>delete\<close>,
  which is given the slice.
\<close>

definition cycle_try_A :: "jsval \<Rightarrow> (jsval + unit) prog" where
  \<open>cycle_try_A opts =
     await (Call_list []) (\<lambda>list.
       if list_is_rejected list then
         Done (Inl (Error ''BackupScheduler -> The "list" function must return an Array of "Backup" instances.''))
       else
         (case Array_sort by_created_at (elements list) of
            Inl e \<Rightarrow> Done (Inl e)
          | Inr sorted' \<Rightarrow>
              await (Call_create []) (\<lambda>backup.
                if \<not> instanceof_Backup backup then
                  Done (Inl (Error ''BackupScheduler -> The "create" function must create and return a "Backup" instance.''))
                else if num_gt (overflow_of sorted' opts) (Finite 0) then
                  await (Call_delete [Array (Array_slice_to sorted' (overflow_of sorted' opts))])
                    (\<lambda>_. Done (Inr ()))
                else Done (Inr ()))))\<close>

text \<open>
  The \<open>try\<close> block of \<open>cycle\<close> in the second revision (lines 418 to 448): a \<open>list\<close> that
  returns \<open>false\<close> skips the deletion, and what \<open>create\<close> returns is not looked at.
\<close>

definition cycle_try_B :: "jsval \<Rightarrow> (jsval + unit) prog" where
  \<open>cycle_try_B opts =
     await (Call_list []) (\<lambda>list.
       if list = Boolean False then
         await (Call_create []) (\<lambda>_. Done (Inr ()))
       else if list_is_rejected list then
         Done (Inl (Error ''BackupScheduler -> The "list" function must return an Array of "Backup" instances.''))
       else
         (case Array_sort by_created_at (elements list) of
            Inl e \<Rightarrow> Done (Inl e)
          | Inr sorted' \<Rightarrow>
              await (Call_create []) (\<lambda>_.
                if num_gt (overflow_of sorted' opts) (Finite 0) then
                  await (Call_delete [Array (Array_slice_to sorted' (overflow_of sorted' opts))])
                    (\<lambda>_. Done (Inr ()))
                else Done (Inr ()))))\<close>

text \<open>
  What the promise returned by \<open>cycle\<close> settles to: resolved with a value, or rejected
  with what was thrown out of the method.
\<close>

datatype settled = Resolved jsval | Rejected jsval

text \<open>
  After the \<open>try\<close> block (lines 305 to 313, and 447 to 455): at its end \<open>success\<close> is set;
  in the \<open>catch\<close> the error is emitted.  Then \<open>#in_flight\<close> is cleared and \<open>success\<close>
  returned.  When \<open>emit\<close> throws inside the \<open>catch\<close>, the method is left there: the two
  statements after the \<open>catch\<close> are not run and the promise is rejected.
\<close>

definition cycle_exit :: "scheduler \<Rightarrow> jsval + unit \<Rightarrow> settled \<times> scheduler \<times> event list" where
  "cycle_exit s r =
     (case r of
        Inr _ \<Rightarrow> (Resolved (Boolean True), s\<lparr>in_flight := False\<rparr>, [])
      | Inl error \<Rightarrow>
          (case emit_error (error_listeners s) error of
             (evs, Some thrown) \<Rightarrow> (Rejected thrown, s, evs)
           | (evs, None) \<Rightarrow> (Resolved (Boolean False), s\<lparr>in_flight := False\<rparr>, evs)))"

subsection \<open>A cycle run against a backend\<close>

text \<open>
  The three operations of \<open>this.options\<close>.  An operation is given its arguments and the
  state of the store, and settles with an outcome and a new state of the store.
\<close>

record 'w backend =
  list_operation :: "jsval list \<Rightarrow> 'w \<Rightarrow> outcome \<times> 'w"
  create_operation :: "jsval list \<Rightarrow> 'w \<Rightarrow> outcome \<times> 'w"
  delete_operation :: "jsval list \<Rightarrow> 'w \<Rightarrow> outcome \<times> 'w"

fun perform :: "'w backend \<Rightarrow> call \<Rightarrow> 'w \<Rightarrow> outcome \<times> 'w" where
  "perform b (Call_list args) w = list_operation b args w"
| "perform b (Call_create args) w = create_operation b args w"
| "perform b (Call_delete args) w = delete_operation b args w"

text \<open>Running a body to its end: every awaited call is performed and recorded.\<close>

primrec run :: "'w backend \<Rightarrow> 'a prog \<Rightarrow> 'w \<Rightarrow> event list \<Rightarrow> 'a \<times> 'w \<times> event list" where
  "run b (Done a) w evs = (a, w, evs)"
| "run b (Await c k) w evs =
     (case perform b c w of (r, w') \<Rightarrow> run b (k r) w' (evs @ [Called c]))"

text \<open>
  \<open>cycle()\<close>, from the call to the settling of its promise, with nothing else running in
  between (lines 274 to 314, and 411 to 456): the guard on \<open>#in_flight\<close>, the \<open>try\<close> block,
  and the exit.  The state is the scheduler, the store and the events so far.
\<close>

definition cycle ::
  "(jsval \<Rightarrow> (jsval + unit) prog) \<Rightarrow> 'w backend \<Rightarrow> scheduler \<times> 'w \<times> event list
     \<Rightarrow> settled \<times> scheduler \<times> 'w \<times> event list" where
  "cycle body b = (\<lambda>(s, w, evs).
     if in_flight s then (Resolved (Boolean False), s, w, evs)
     else
       (case run b (body (options s)) w evs of
          (r, w', evs') \<Rightarrow>
            (case cycle_exit (s\<lparr>in_flight := True\<rparr>) r of
               (result, s', evs'') \<Rightarrow> (result, s', w', evs' @ evs''))))"

definition cycle_A ::
  "'w backend \<Rightarrow> scheduler \<times> 'w \<times> event list \<Rightarrow> settled \<times> scheduler \<times> 'w \<times> event list" where
  "cycle_A = cycle cycle_try_A"

definition cycle_B ::
  "'w backend \<Rightarrow> scheduler \<times> 'w \<times> event list \<Rightarrow> settled \<times> scheduler \<times> 'w \<times> event list" where
  "cycle_B = cycle cycle_try_B"

subsection \<open>Cycles interleaved with the rest of the program\<close>

text \<open>
  While a cycle is suspended at an \<open>await\<close>, the timer may fire, \<open>cycle\<close> may be called by
  hand, and \<open>destroy\<close> may be called.  The state of the whole is the scheduler, the
  suspended activations of \<open>cycle\<close> (each with the call it awaits and what it does with the
  outcome), the events so far, and what the promises of the finished calls of \<open>cycle\<close>
  settled to.
\<close>

record system =
  sched :: scheduler
  awaiting :: "(call \<times> (outcome \<Rightarrow> (jsval + unit) prog)) list"
  trace :: "event list"
  settlements :: "settled list"

datatype input = Timer_fires | Manual_cycle | Settles nat outcome | Destroy

text \<open>An activation runs on until its next \<open>await\<close>, or to its exit.\<close>

definition advance :: "(jsval + unit) prog \<Rightarrow> system \<Rightarrow> system" where
  "advance p sys =
     (case p of
        Await c k \<Rightarrow> sys\<lparr>awaiting := awaiting sys @ [(c, k)], trace := trace sys @ [Called c]\<rparr>
      | Done r \<Rightarrow>
          (case cycle_exit (sched sys) r of
             (result, s', evs) \<Rightarrow>
               sys\<lparr>sched := s', trace := trace sys @ evs,
                   settlements := settlements sys @ [result]\<rparr>))"

text \<open>A call of \<open>cycle()\<close>: the guard, then the body up to its first \<open>await\<close>.\<close>

definition invoke :: "(jsval \<Rightarrow> (jsval + unit) prog) \<Rightarrow> system \<Rightarrow> system" where
  "invoke body sys =
     (if in_flight (sched sys) then sys\<lparr>settlements := settlements sys @ [Resolved (Boolean False)]\<rparr>
      else advance (body (options (sched sys))) (sys\<lparr>sched := (sched sys)\<lparr>in_flight := True\<rparr>\<rparr>))"

definition drop_nth :: "nat \<Rightarrow> 'a list \<Rightarrow> 'a list" where
  "drop_nth i xs = take i xs @ drop (Suc i) xs"

text \<open>
  One step: the timer fires (only while it is set) and calls \<open>cycle\<close>; \<open>cycle\<close> is called
  by hand; the call that the \<open>i\<close>-th suspended activation awaits settles; \<open>destroy\<close> is
  called.
\<close>

fun step :: "(jsval \<Rightarrow> (jsval + unit) prog) \<Rightarrow> system \<Rightarrow> input \<Rightarrow> system" where
  "step body sys Timer_fires =
     (if interval_timer (sched sys) = None then sys else invoke body sys)"
| "step body sys Manual_cycle = invoke body sys"
| "step body sys (Settles i r) =
     (if i < length (awaiting sys) then
        advance (snd (awaiting sys ! i) r) (sys\<lparr>awaiting := drop_nth i (awaiting sys)\<rparr>)
      else sys)"
| "step body sys Destroy = sys\<lparr>sched := destroy (sched sys)\<rparr>"

text \<open>
  The steps that let one activation run alone against a backend: each call it awaits is
  performed and settles before anything else happens.
\<close>

primrec settling_inputs :: "'w backend \<Rightarrow> 'a prog \<Rightarrow> 'w \<Rightarrow> input list" where
  "settling_inputs b (Done a) w = []"
| "settling_inputs b (Await c k) w =
     (case perform b c w of (r, w') \<Rightarrow> Settles 0 r # settling_inputs b (k r) w')"

text \<open>The system right after the constructor returned scheduler \<open>s\<close>.\<close>

definition started :: "scheduler \<Rightarrow> system" where
  "started s = \<lparr>sched = s, awaiting = [], trace = [], settlements = []\<rparr>"

section \<open>DiskBackupScheduler.js: list\<close>

text \<open>\<open>a || b\<close>: \<open>a\<close> when it is truthy, \<open>b\<close> otherwise.\<close>

definition js_or :: "jsval \<Rightarrow> jsval \<Rightarrow> jsval" where
  "js_or a b = (if truthy a then a else b)"

text \<open>
  An entry of the directory, as \<open>readdir\<close> returns it, with the three times that \<open>stat\<close>
  returns for it.
\<close>

record dirent =
  dirent_name :: string
  isFile :: bool
  birthtimeMs :: number
  mtimeMs :: number
  ctimeMs :: number

text \<open>
  The loop of \<open>list\<close> (DiskBackupScheduler.js, lines 95 to 106): the entries that are not
  files are skipped, and the constructor of \<open>Backup\<close> may throw.
\<close>

fun disk_backups :: "dirent list \<Rightarrow> jsval + backup list" where
  "disk_backups [] = Inr []"
| "disk_backups (f # fs) =
     (if \<not> isFile f then disk_backups fs
      else
        (case Backup_constructor (String (dirent_name f))
                (js_or (js_or (Number (birthtimeMs f)) (Number (mtimeMs f))) (Number (ctimeMs f))) of
           Inl e \<Rightarrow> Inl e
         | Inr backup \<Rightarrow>
             (case disk_backups fs of Inl e \<Rightarrow> Inl e | Inr backups \<Rightarrow> Inr (backup # backups))))"

text \<open>
  \<open>list(limit)\<close> (lines 87 to 110), given the entries that \<open>readdir\<close> returned:
  \<open>if (files.length < limit) return false\<close>, then the loop.
\<close>

definition DiskBackupScheduler_list :: "jsval \<Rightarrow> dirent list \<Rightarrow> outcome" where
  "DiskBackupScheduler_list limit files =
     (if js_lt (Number (Finite (of_nat (length files)))) limit then Returns (Boolean False)
      else
        (case disk_backups files of
           Inl e \<Rightarrow> Throws e
         | Inr backups \<Rightarrow> Returns (Array (map BackupInstance backups))))"

text \<open>
  The \<open>list\<close> that the constructor of the disk scheduler hands to the core (line 69):
  \<open>list: () => this.list()\<close>.  Whatever it is called with, it calls \<open>list\<close> with no
  argument, so \<open>limit\<close> is \<open>undefined\<close> there.
\<close>

definition Disk_options_list :: "jsval list \<Rightarrow> dirent list \<Rightarrow> outcome" where
  "Disk_options_list args files = DiskBackupScheduler_list Undefined files"

section \<open>Notions the properties are stated with\<close>

text \<open>
  A backup that the constructor of \<open>Backup\<close> returns for the fields it has: the records
  that \<open>new Backup\<close> can produce.
\<close>

definition constructed :: "backup \<Rightarrow> bool" where
  "constructed b = (Backup_constructor (String (backup_id b)) (Number (created_at b)) = Inr b)"

text \<open>Ascending order of \<open>created_at\<close>: the second backup is not older than the first.\<close>

definition not_after :: "backup \<Rightarrow> backup \<Rightarrow> bool" where
  "not_after x y = (\<not> num_lt (created_at y) (created_at x))"

text \<open>
  On an array of backups the comparator does not throw, and the sort of arrays is the
  insertion of backups below (lemma \<open>Array_sort_backups\<close>).
\<close>

fun insert_backup :: "backup \<Rightarrow> backup list \<Rightarrow> backup list" where
  "insert_backup x [] = [x]"
| "insert_backup x (y # ys) =
     (if num_gt (num_sub (created_at x) (created_at y)) (Finite 0) then y # insert_backup x ys
      else x # y # ys)"

fun sort_backups :: "backup list \<Rightarrow> backup list" where
  "sort_backups [] = []"
| "sort_backups (x # xs) = insert_backup x (sort_backups xs)"

text \<open>The events that are calls of \<open>list\<close>, of \<open>create\<close> and of \<open>delete\<close>.\<close>

fun is_list_call :: "event \<Rightarrow> bool" where
  "is_list_call (Called (Call_list _)) = True"
| "is_list_call _ = False"

fun is_create_call :: "event \<Rightarrow> bool" where
  "is_create_call (Called (Call_create _)) = True"
| "is_create_call _ = False"

fun is_delete_call :: "event \<Rightarrow> bool" where
  "is_delete_call (Called (Call_delete _)) = True"
| "is_delete_call _ = False"

text \<open>
  The invariant of the interleaved system: at most one activation of \<open>cycle\<close> is suspended
  at a backend call, and \<open>#in_flight\<close> is set while one is.
\<close>

definition single_flight :: "system \<Rightarrow> bool" where
  "single_flight sys = (length (awaiting sys) \<le> 1 \<and> (awaiting sys = [] \<or> in_flight (sched sys)))"

text \<open>The four options that the S3 constructor replaces.\<close>

definition redacted_keys :: "string set" where
  "redacted_keys = {''region'', ''bucket'', ''accessKeyId'', ''secretAccessKey''}"

section \<open>Concrete inputs\<close>

text \<open>Options with the three operations, for a given interval and limit.\<close>

definition example_options :: "jsval \<Rightarrow> jsval \<Rightarrow> jsval" where
  "example_options interval limit =
     Object [(''interval'', interval), (''limit'', limit),
             (''list'', Function ''list''), (''create'', Function ''create''),
             (''delete'', Function ''delete'')]"

text \<open>
  The scheduler that the constructor returns for an interval of one minute and the given
  limit (lemma \<open>example_scheduler_constructed\<close>): no listener is registered.
\<close>

definition example_scheduler :: "rat \<Rightarrow> scheduler" where
  "example_scheduler limit =
     \<lparr>options = example_options (Number (Finite 60000)) (Number (Finite limit)),
      in_flight = False, interval_timer = Some (Number (Finite 60000)), error_listeners = []\<rparr>"

text \<open>A listener that returns.\<close>

definition returning_listener :: listener where
  "returning_listener e = None"

text \<open>A backend whose three operations settle with the given outcomes, whatever the store.\<close>

definition scripted :: "outcome \<Rightarrow> outcome \<Rightarrow> outcome \<Rightarrow> unit backend" where
  "scripted rl rc rd =
     \<lparr>list_operation = (\<lambda>args w. (rl, w)),
      create_operation = (\<lambda>args w. (rc, w)),
      delete_operation = (\<lambda>args w. (rd, w))\<rparr>"

definition example_backup :: "string \<Rightarrow> rat \<Rightarrow> backup" where
  "example_backup i t = \<lparr>backup_id = i, created_at = Finite t\<rparr>"

definition four_backups :: "backup list" where
  "four_backups = [example_backup ''C'' 300, example_backup ''A'' 100,
                   example_backup ''D'' 400, example_backup ''B'' 200]"

definition tied_backups :: "backup list" where
  "tied_backups = [example_backup ''x'' 200, example_backup ''y'' 100, example_backup ''z'' 200]"

definition example_S3_options :: "string \<Rightarrow> string \<Rightarrow> string \<Rightarrow> string \<Rightarrow> jsval" where
  "example_S3_options r b a k =
     Object [(''interval'', Number (Finite 60000)), (''limit'', Number (Finite 3)),
             (''region'', String r), (''bucket'', String b),
             (''accessKeyId'', String a), (''secretAccessKey'', String k),
             (''name'', Function ''name''), (''prepare'', Function ''prepare'')]"

section \<open>Properties of Backup.js\<close>

lemma typeof_string: "typeof v = ''string'' \<longleftrightarrow> (\<exists>s. v = String s)"
  by (cases v) simp_all

lemma typeof_number: "typeof v = ''number'' \<longleftrightarrow> (\<exists>n. v = Number n)"
  by (cases v) simp_all

lemma typeof_function: "typeof v = ''function'' \<longleftrightarrow> (\<exists>f. v = Function f)"
  by (cases v) simp_all

lemma not_lt_one_positive: "\<not> num_lt n (Finite 1) \<Longrightarrow> n \<noteq> NaN \<Longrightarrow> positive n"
  by (cases n) (simp_all add: positive_def num_gt_def)

lemma not_positive_lt_one: "\<not> positive n \<Longrightarrow> n \<noteq> NaN \<Longrightarrow> num_lt n (Finite 1)"
  by (cases n) (simp_all add: positive_def num_gt_def)

text \<open>
  C9.  A backup that the constructor returns has a non-empty string as its id (the
  arguments were \<open>String (backup_id b)\<close> and \<open>Number (created_at b)\<close>) and a strictly
  positive \<open>created_at\<close>; and the constructor throws when the id is not a string or is
  the empty string, and when \<open>created_at\<close> is a number that is zero or negative (not
  strictly positive).
\<close>

theorem Backup_constructor_invariant:
  "(Backup_constructor i c = Inr b \<longrightarrow>
      i = String (backup_id b) \<and> backup_id b \<noteq> [] \<and>
      c = Number (created_at b) \<and> positive (created_at b)) \<and>
   ((typeof i \<noteq> ''string'' \<or> i = String []) \<longrightarrow> (\<exists>e. Backup_constructor i c = Inl e)) \<and>
   ((\<forall>n. c = Number n \<longrightarrow> \<not> positive n) \<longrightarrow> (\<exists>e. Backup_constructor i c = Inl e))"
proof (intro conjI impI)
  assume ok: "Backup_constructor i c = Inr b"
  then obtain s n where i: "i = String s" and c: "c = Number n"
    by (auto simp: Backup_constructor_def typeof_string typeof_number split: if_splits)
  from ok have b: "b = \<lparr>backup_id = s, created_at = n\<rparr>"
    by (simp add: Backup_constructor_def i c split: if_splits)
  from ok have s: "s \<noteq> []" and n: "n \<noteq> NaN" "\<not> num_lt n (Finite 1)"
    by (simp_all add: Backup_constructor_def i c split: if_splits)
  show "i = String (backup_id b)" by (simp add: i b)
  show "backup_id b \<noteq> []" by (simp add: b s)
  show "c = Number (created_at b)" by (simp add: c b)
  show "positive (created_at b)" using n by (simp add: b not_lt_one_positive)
next
  assume "typeof i \<noteq> ''string'' \<or> i = String []"
  then show "\<exists>e. Backup_constructor i c = Inl e"
    by (auto simp: Backup_constructor_def)
next
  assume neg: "\<forall>n. c = Number n \<longrightarrow> \<not> positive n"
  show "\<exists>e. Backup_constructor i c = Inl e"
  proof (cases c)
    case (Number n)
    with neg have "\<not> positive n" by simp
    then have "n = NaN \<or> num_lt n (Finite 1)" using not_positive_lt_one by blast
    then show ?thesis by (auto simp: Backup_constructor_def Number)
  qed (simp_all add: Backup_constructor_def)
qed

theorem Backup_constructor_invariant_witness:
  "Backup_constructor (String ''a.zip'') (Number (Finite 1700000000000))
     = Inr \<lparr>backup_id = ''a.zip'', created_at = Finite 1700000000000\<rparr> \<and>
   positive (Finite 1700000000000) \<and>
   (\<exists>e. Backup_constructor (String []) (Number (Finite 5)) = Inl e) \<and>
   (\<exists>e. Backup_constructor (Number (Finite 7)) (Number (Finite 5)) = Inl e) \<and>
   (\<exists>e. Backup_constructor (String ''a.zip'') (Number (Finite 0)) = Inl e) \<and>
   (\<exists>e. Backup_constructor (String ''a.zip'') (Number (Finite (- 3))) = Inl e)"
proof -
  have ok: "Backup_constructor (String ''a.zip'') (Number (Finite 1700000000000))
     = Inr \<lparr>backup_id = ''a.zip'', created_at = Finite 1700000000000\<rparr>"
    by (simp add: Backup_constructor_def)
  have np0: "\<forall>n. Number (Finite 0) = Number n \<longrightarrow> \<not> positive n"
    by (simp add: positive_def num_gt_def)
  have np3: "\<forall>n. Number (Finite (- 3)) = Number n \<longrightarrow> \<not> positive n"
    by (simp add: positive_def num_gt_def)
  from Backup_constructor_invariant
    [of "String ''a.zip''" "Number (Finite 1700000000000)"
        "\<lparr>backup_id = ''a.zip'', created_at = Finite 1700000000000\<rparr>"] ok
  have "positive (Finite 1700000000000)" by simp
  moreover from Backup_constructor_invariant [of "String []" "Number (Finite 5)"]
  have "\<exists>e. Backup_constructor (String []) (Number (Finite 5)) = Inl e" by simp
  moreover from Backup_constructor_invariant [of "Number (Finite 7)" "Number (Finite 5)"]
  have "\<exists>e. Backup_constructor (Number (Finite 7)) (Number (Finite 5)) = Inl e" by simp
  moreover from Backup_constructor_invariant [of "String ''a.zip''" "Number (Finite 0)"] np0
  have "\<exists>e. Backup_constructor (String ''a.zip'') (Number (Finite 0)) = Inl e" by blast
  moreover from Backup_constructor_invariant [of "String ''a.zip''" "Number (Finite (- 3))"] np3
  have "\<exists>e. Backup_constructor (String ''a.zip'') (Number (Finite (- 3))) = Inl e" by blast
  ultimately show ?thesis using ok by blast
qed

section \<open>Properties of the constructor of BackupScheduler\<close>

text \<open>The three tests of the constructors, read as what they let through.\<close>

lemma rejects_object: "(\<not> truthy v \<or> typeof v \<noteq> ''object'') = (\<not> is_object v)"
  by (cases v) simp_all

lemma rejects_number:
  "(\<not> truthy v \<or> typeof v \<noteq> ''number'' \<or> js_lt v (Number (Finite 1)))
     = (\<not> number_at_least_one v)"
proof (cases v)
  case (Number n)
  then show ?thesis by (cases n) auto
qed simp_all

lemma rejects_function: "(\<not> truthy v \<or> typeof v \<noteq> ''function'') = (\<not> callable v)"
  by (cases v) simp_all

lemma example_scheduler_constructed:
  "1 \<le> limit \<Longrightarrow>
   BackupScheduler_constructor (example_options (Number (Finite 60000)) (Number (Finite limit)))
     = Inr (example_scheduler limit)"
  by (auto simp: BackupScheduler_constructor_def example_options_def example_scheduler_def)

text \<open>
  C7, as the specification states it, fails in both directions.  An interval of half a
  millisecond is a positive number, the limit 3 is a positive integer and the three
  operations are functions, so the configuration is valid in the specification's sense,
  and the constructor throws.  A limit of 1.5 is not an integer, so the configuration is
  invalid in the specification's sense, and the constructor returns a scheduler.
\<close>

theorem constructor_validity_counterexample:
  "\<not> spec_invalid_configuration (example_options (Number (Finite (1/2))) (Number (Finite 3))) \<and>
   isl (BackupScheduler_constructor (example_options (Number (Finite (1/2))) (Number (Finite 3)))) \<and>
   spec_invalid_configuration (example_options (Number (Finite 1000)) (Number (Finite (3/2)))) \<and>
   \<not> isl (BackupScheduler_constructor (example_options (Number (Finite 1000)) (Number (Finite (3/2)))))"
proof -
  have "\<lfloor>(3/2 :: rat)\<rfloor> = 1" by linarith
  then show ?thesis
    by (simp add: spec_invalid_configuration_def example_options_def BackupScheduler_constructor_def
        positive_def num_gt_def)
qed

text \<open>
  C7, amended.  The constructor throws if and only if the options are not an object, or the
  interval is not a number that is at least 1, or the limit is not a number that is at
  least 1 (a limit need not be an integer, and \<open>Infinity\<close> is accepted for both), or one of
  \<open>list\<close>, \<open>create\<close> and \<open>delete\<close> is not a function.  When it does not throw it returns
  the scheduler that holds the options as given, is not in flight, has its timer set
  with the interval, and has no listener.
\<close>

theorem constructor_throws_iff:
  "(isl (BackupScheduler_constructor opts) \<longleftrightarrow>
      \<not> (is_object opts \<and>
         number_at_least_one (js_get opts ''interval'') \<and>
         number_at_least_one (js_get opts ''limit'') \<and>
         callable (js_get opts ''list'') \<and>
         callable (js_get opts ''create'') \<and>
         callable (js_get opts ''delete''))) \<and>
   (\<not> isl (BackupScheduler_constructor opts) \<longrightarrow>
      BackupScheduler_constructor opts =
        Inr \<lparr>options = opts, in_flight = False,
             interval_timer = Some (js_get opts ''interval''), error_listeners = []\<rparr>)"
proof -
  let ?ok = "is_object opts \<and>
         number_at_least_one (js_get opts ''interval'') \<and>
         number_at_least_one (js_get opts ''limit'') \<and>
         callable (js_get opts ''list'') \<and>
         callable (js_get opts ''create'') \<and>
         callable (js_get opts ''delete'')"
  have accepted: "BackupScheduler_constructor opts =
        Inr \<lparr>options = opts, in_flight = False,
             interval_timer = Some (js_get opts ''interval''), error_listeners = []\<rparr>" if ?ok
    unfolding BackupScheduler_constructor_def rejects_object rejects_number rejects_function
    using that by simp
  have rejected: "isl (BackupScheduler_constructor opts)" if "\<not> ?ok"
  proof -
    from that consider
        (options) "\<not> is_object opts"
      | (interval) "is_object opts" "\<not> number_at_least_one (js_get opts ''interval'')"
      | (limit) "is_object opts" "number_at_least_one (js_get opts ''interval'')"
          "\<not> number_at_least_one (js_get opts ''limit'')"
      | (list) "is_object opts" "number_at_least_one (js_get opts ''interval'')"
          "number_at_least_one (js_get opts ''limit'')" "\<not> callable (js_get opts ''list'')"
      | (create) "is_object opts" "number_at_least_one (js_get opts ''interval'')"
          "number_at_least_one (js_get opts ''limit'')" "callable (js_get opts ''list'')"
          "\<not> callable (js_get opts ''create'')"
      | (delete) "is_object opts" "number_at_least_one (js_get opts ''interval'')"
          "number_at_least_one (js_get opts ''limit'')" "callable (js_get opts ''list'')"
          "callable (js_get opts ''create'')" "\<not> callable (js_get opts ''delete'')"
      by blast
    then show ?thesis
      unfolding BackupScheduler_constructor_def rejects_object rejects_number rejects_function
      by cases simp_all
  qed
  from accepted rejected show ?thesis by (cases ?ok) simp_all
qed

theorem constructor_throws_iff_witness:
  "BackupScheduler_constructor (example_options (Number (Finite 60000)) (Number (Finite (5/2))))
     = Inr \<lparr>options = example_options (Number (Finite 60000)) (Number (Finite (5/2))),
            in_flight = False, interval_timer = Some (Number (Finite 60000)), error_listeners = []\<rparr> \<and>
   isl (BackupScheduler_constructor (example_options (Number (Finite 60000)) (Number (Finite 0)))) \<and>
   isl (BackupScheduler_constructor (Object [(''interval'', Number (Finite 60000)), (''limit'', Number (Finite 3))]))"
proof -
  have ok: "is_object (example_options (Number (Finite 60000)) (Number (Finite (5/2)))) \<and>
      number_at_least_one (js_get (example_options (Number (Finite 60000)) (Number (Finite (5/2)))) ''interval'') \<and>
      number_at_least_one (js_get (example_options (Number (Finite 60000)) (Number (Finite (5/2)))) ''limit'') \<and>
      callable (js_get (example_options (Number (Finite 60000)) (Number (Finite (5/2)))) ''list'') \<and>
      callable (js_get (example_options (Number (Finite 60000)) (Number (Finite (5/2)))) ''create'') \<and>
      callable (js_get (example_options (Number (Finite 60000)) (Number (Finite (5/2)))) ''delete'')"
    by (simp add: example_options_def)
  have zero: "\<not> number_at_least_one (js_get (example_options (Number (Finite 60000)) (Number (Finite 0))) ''limit'')"
    by (simp add: example_options_def)
  have missing: "\<not> callable (js_get (Object [(''interval'', Number (Finite 60000)), (''limit'', Number (Finite 3))]) ''list'')"
    by simp
  have 1: "BackupScheduler_constructor (example_options (Number (Finite 60000)) (Number (Finite (5/2))))
     = Inr \<lparr>options = example_options (Number (Finite 60000)) (Number (Finite (5/2))),
            in_flight = False, interval_timer = Some (Number (Finite 60000)), error_listeners = []\<rparr>"
    using constructor_throws_iff [of "example_options (Number (Finite 60000)) (Number (Finite (5/2)))"] ok
    by (simp add: example_options_def)
  have 2: "isl (BackupScheduler_constructor (example_options (Number (Finite 60000)) (Number (Finite 0))))"
    using constructor_throws_iff [of "example_options (Number (Finite 60000)) (Number (Finite 0))"] zero
    by blast
  have 3: "isl (BackupScheduler_constructor (Object [(''interval'', Number (Finite 60000)), (''limit'', Number (Finite 3))]))"
    using constructor_throws_iff [of "Object [(''interval'', Number (Finite 60000)), (''limit'', Number (Finite 3))]"] missing
    by blast
  from 1 2 3 show ?thesis by blast
qed

section \<open>Properties of the constructor of S3BackupScheduler\<close>

lemma js_get_Object_update:
  "js_get (Object (AList.update k v ps)) k' = (if k' = k then v else js_get (Object ps) k')"
  by (simp add: update_conv')

lemma js_get_super_options:
  "js_get (S3_super_options opts) k =
     (if k = ''delete'' then Function ''(backups) => this.delete(backups)''
      else if k = ''create'' then Function ''() => this.create()''
      else if k = ''list'' then Function ''() => this.list()''
      else if k \<in> redacted_keys then String ''*******''
      else js_get (Object (own_properties opts)) k)"
  unfolding S3_super_options_def redacted_keys_def
  by (simp only: js_get_Object_update) auto

lemma S3_constructor_options:
  assumes "S3BackupScheduler_constructor opts = Inr s"
  shows "options s = S3_super_options opts"
  using assms
  by (auto simp: S3BackupScheduler_constructor_def BackupScheduler_constructor_def
      scheduler.extend_def split: if_splits sum.splits)

lemma S3_constructor_object:
  assumes "S3BackupScheduler_constructor opts = Inr s"
  shows "\<exists>ps. opts = Object ps"
proof (cases opts)
  case (BackupInstance b)
  with assms show ?thesis by (simp add: S3BackupScheduler_constructor_def split: if_splits)
qed (use assms in \<open>simp_all add: S3BackupScheduler_constructor_def\<close>)

text \<open>
  C10.  In the \<open>options\<close> of an S3 scheduler that was constructed, the entries \<open>region\<close>,
  \<open>bucket\<close>, \<open>accessKeyId\<close> and \<open>secretAccessKey\<close> hold the string \<open>*******\<close>; and when
  two constructions succeed on options that agree on every property but these four, the
  stored options agree on every property: what is stored does not depend on the four
  values given.
\<close>

theorem S3_options_redacted:
  assumes c1: "S3BackupScheduler_constructor opts1 = Inr s1"
    and c2: "S3BackupScheduler_constructor opts2 = Inr s2"
  shows "(\<forall>k\<in>redacted_keys. js_get (options s1) k = String ''*******'') \<and>
         ((\<forall>k. k \<notin> redacted_keys \<longrightarrow> js_get opts1 k = js_get opts2 k) \<longrightarrow>
          (\<forall>k. js_get (options s1) k = js_get (options s2) k))"
proof (intro conjI ballI impI allI)
  fix k assume "k \<in> redacted_keys"
  then show "js_get (options s1) k = String ''*******''"
    unfolding S3_constructor_options [OF c1] js_get_super_options
    by (auto simp: redacted_keys_def)
next
  fix k
  assume same: "\<forall>k. k \<notin> redacted_keys \<longrightarrow> js_get opts1 k = js_get opts2 k"
  from S3_constructor_object [OF c1] obtain ps1 where o1: "opts1 = Object ps1" by blast
  from S3_constructor_object [OF c2] obtain ps2 where o2: "opts2 = Object ps2" by blast
  show "js_get (options s1) k = js_get (options s2) k"
    unfolding S3_constructor_options [OF c1] S3_constructor_options [OF c2] js_get_super_options
    using same by (simp add: o1 o2)
qed

lemma example_S3_constructed:
  "r \<noteq> [] \<Longrightarrow> b \<noteq> [] \<Longrightarrow> a \<noteq> [] \<Longrightarrow> k \<noteq> [] \<Longrightarrow>
   \<not> isl (S3BackupScheduler_constructor (example_S3_options r b a k))"
  by (simp add: example_S3_options_def S3BackupScheduler_constructor_def S3_super_options_def
      BackupScheduler_constructor_def)

theorem S3_options_redacted_witness:
  "\<not> isl (S3BackupScheduler_constructor (example_S3_options ''eu-west-1'' ''vault'' ''AKIA1'' ''s3cr3t'')) \<and>
   \<not> isl (S3BackupScheduler_constructor (example_S3_options ''us-east-2'' ''other'' ''AKIA2'' ''hunter2'')) \<and>
   js_get (options (projr (S3BackupScheduler_constructor
       (example_S3_options ''eu-west-1'' ''vault'' ''AKIA1'' ''s3cr3t'')))) ''secretAccessKey''
     = String ''*******'' \<and>
   (\<forall>k. js_get (options (projr (S3BackupScheduler_constructor
             (example_S3_options ''eu-west-1'' ''vault'' ''AKIA1'' ''s3cr3t'')))) k =
        js_get (options (projr (S3BackupScheduler_constructor
             (example_S3_options ''us-east-2'' ''other'' ''AKIA2'' ''hunter2'')))) k)"
proof -
  let ?o1 = "example_S3_options ''eu-west-1'' ''vault'' ''AKIA1'' ''s3cr3t''"
  let ?o2 = "example_S3_options ''us-east-2'' ''other'' ''AKIA2'' ''hunter2''"
  have n1: "\<not> isl (S3BackupScheduler_constructor ?o1)" by (rule example_S3_constructed) simp_all
  have n2: "\<not> isl (S3BackupScheduler_constructor ?o2)" by (rule example_S3_constructed) simp_all
  have c1: "S3BackupScheduler_constructor ?o1 = Inr (projr (S3BackupScheduler_constructor ?o1))"
    using n1 by simp
  have c2: "S3BackupScheduler_constructor ?o2 = Inr (projr (S3BackupScheduler_constructor ?o2))"
    using n2 by simp
  have same: "\<forall>k. k \<notin> redacted_keys \<longrightarrow> js_get ?o1 k = js_get ?o2 k"
    by (simp add: example_S3_options_def redacted_keys_def)
  have key: "''secretAccessKey'' \<in> redacted_keys" by (simp add: redacted_keys_def)
  from S3_options_redacted [OF c1 c2] same key n1 n2 show ?thesis by blast
qed

section \<open>Properties of the sort\<close>

lemma by_created_at_backups:
  "by_created_at (BackupInstance x) (BackupInstance y) = Inr (num_sub (created_at x) (created_at y))"
  by (simp add: by_created_at_def read_property_def)

lemma insert_sorted_backups:
  "insert_sorted by_created_at (BackupInstance x) (map BackupInstance ys)
     = Inr (map BackupInstance (insert_backup x ys))"
  by (induction ys) (simp_all add: by_created_at_backups)

lemma sort_with_backups:
  "sort_with by_created_at (map BackupInstance bs) = Inr (map BackupInstance (sort_backups bs))"
  by (induction bs) (simp_all add: insert_sorted_backups)

lemma filter_defined_backups:
  "filter (\<lambda>v. v \<noteq> Undefined) (map BackupInstance bs) = map BackupInstance bs"
  by (induction bs) simp_all

lemma filter_undefined_backups: "filter (\<lambda>v. v = Undefined) (map BackupInstance bs) = []"
  by (induction bs) simp_all

lemma Array_sort_backups:
  "Array_sort by_created_at (map BackupInstance bs) = Inr (map BackupInstance (sort_backups bs))"
  by (simp add: Array_sort_def filter_defined_backups filter_undefined_backups sort_with_backups)

lemma mset_insert_backup: "mset (insert_backup x ys) = add_mset x (mset ys)"
  by (induction ys) simp_all

lemma mset_sort_backups: "mset (sort_backups bs) = mset bs"
  by (induction bs) (simp_all add: mset_insert_backup)

lemma length_sort_backups: "length (sort_backups bs) = length bs"
  using mset_sort_backups [of bs] by (metis size_mset)

lemma set_sort_backups: "set (sort_backups bs) = set bs"
  using mset_sort_backups [of bs] by (metis set_mset_mset)

text \<open>
  The sign of a difference is the order of its operands: the comparator is consistent on
  numbers that are not \<open>NaN\<close>, and equal numbers never compare as greater.
\<close>

lemma gt_difference: "a \<noteq> NaN \<Longrightarrow> b \<noteq> NaN \<Longrightarrow> num_gt (num_sub a b) (Finite 0) = num_lt b a"
  by (cases a; cases b) (simp_all add: num_gt_def num_sub_def)

lemma difference_of_equals: "\<not> num_gt (num_sub a a) (Finite 0)"
  by (cases a) (simp_all add: num_gt_def num_sub_def)

lemma num_lt_asym: "num_lt a b \<Longrightarrow> \<not> num_lt b a"
  by (cases a; cases b) simp_all

lemma num_le_trans:
  "a \<noteq> NaN \<Longrightarrow> b \<noteq> NaN \<Longrightarrow> c \<noteq> NaN \<Longrightarrow> \<not> num_lt b a \<Longrightarrow> \<not> num_lt c b \<Longrightarrow> \<not> num_lt c a"
  by (cases a; cases b; cases c) simp_all

lemma constructed_not_NaN: "constructed b \<Longrightarrow> created_at b \<noteq> NaN"
  by (auto simp: constructed_def Backup_constructor_def split: if_splits)

lemma sorted_insert_backup:
  assumes "created_at x \<noteq> NaN" "\<forall>y\<in>set ys. created_at y \<noteq> NaN" "sorted_wrt not_after ys"
  shows "sorted_wrt not_after (insert_backup x ys)"
  using assms
proof (induction ys)
  case Nil
  then show ?case by simp
next
  case (Cons y ys)
  show ?case
  proof (cases "num_lt (created_at y) (created_at x)")
    case True
    have "\<forall>z\<in>set (insert_backup x ys). not_after y z"
    proof
      fix z assume "z \<in> set (insert_backup x ys)"
      then have "z = x \<or> z \<in> set ys"
        using mset_insert_backup [of x ys] by (metis insert_iff set_mset_add_mset_insert set_mset_mset)
      then show "not_after y z"
        using True Cons.prems(3) by (auto simp: not_after_def dest: num_lt_asym)
    qed
    then show ?thesis using True Cons by (simp add: gt_difference)
  next
    case False
    have "\<forall>z\<in>set ys. not_after x z"
    proof
      fix z assume z: "z \<in> set ys"
      then have "\<not> num_lt (created_at z) (created_at y)"
        using Cons.prems(3) by (simp add: not_after_def)
      with False show "not_after x z"
        unfolding not_after_def
        using num_le_trans [of "created_at x" "created_at y" "created_at z"] Cons.prems(1,2) z
        by simp
    qed
    then show ?thesis using False Cons.prems by (simp add: gt_difference not_after_def)
  qed
qed

lemma sorted_sort_backups:
  "\<forall>y\<in>set bs. created_at y \<noteq> NaN \<Longrightarrow> sorted_wrt not_after (sort_backups bs)"
  by (induction bs) (simp_all add: sorted_insert_backup set_sort_backups)

text \<open>
  Insertion passes only over backups that are strictly older, so among the backups of one
  \<open>created_at\<close> the inserted one comes first, as it did in the input.
\<close>

lemma filter_insert_backup:
  "filter (\<lambda>b. created_at b = t) (insert_backup x ys)
     = (if created_at x = t then x # filter (\<lambda>b. created_at b = t) ys
        else filter (\<lambda>b. created_at b = t) ys)"
proof (induction ys)
  case Nil
  then show ?case by simp
next
  case (Cons y ys)
  then show ?case using difference_of_equals [of "created_at x"] by auto
qed

lemma stable_sort_backups:
  "filter (\<lambda>b. created_at b = t) (sort_backups bs) = filter (\<lambda>b. created_at b = t) bs"
  by (induction bs) (simp_all add: filter_insert_backup)

text \<open>
  An ascending array that keeps, for every timestamp, the backups of that timestamp in a
  given order is determined: whatever algorithm an engine runs, a stable sort has one
  result.
\<close>

lemma num_antisym:
  "a \<noteq> NaN \<Longrightarrow> b \<noteq> NaN \<Longrightarrow> \<not> num_lt a b \<Longrightarrow> \<not> num_lt b a \<Longrightarrow> a = b"
  by (cases a; cases b) simp_all

lemma stable_sorted_unique:
  assumes "\<forall>x\<in>set xs. created_at x \<noteq> NaN"
    and "sorted_wrt not_after xs" and "sorted_wrt not_after ys"
    and "\<forall>t. filter (\<lambda>b. created_at b = t) xs = filter (\<lambda>b. created_at b = t) ys"
  shows "xs = ys"
  using assms
proof (induction xs arbitrary: ys)
  case Nil
  show ?case
  proof (cases ys)
    case (Cons y ys')
    from Nil.prems(4) have "filter (\<lambda>b. created_at b = created_at y) [] =
        filter (\<lambda>b. created_at b = created_at y) ys" by (rule spec)
    then show ?thesis by (simp add: Cons)
  qed simp
next
  case (Cons x xs)
  let ?f = "\<lambda>t. filter (\<lambda>b. created_at b = t)"
  have same: "\<And>t. ?f t (x # xs) = ?f t ys" using Cons.prems(4) by blast
  have hx: "?f (created_at x) ys = x # ?f (created_at x) xs"
    using same [of "created_at x"] by simp
  then obtain y ys' where ys: "ys = y # ys'" by (cases ys) auto
  have hy: "?f (created_at y) (x # xs) = y # ?f (created_at y) ys'"
    using same [of "created_at y"] by (simp add: ys)
  have "y \<in> set (?f (created_at y) (x # xs))" unfolding hy by simp
  then have yin: "y \<in> set (x # xs)" by (simp only: set_filter) blast
  have "x \<in> set (?f (created_at x) ys)" unfolding hx by simp
  then have xin: "x \<in> set (y # ys')" unfolding ys by (simp only: set_filter) blast
  have ynan: "created_at y \<noteq> NaN" using yin Cons.prems(1) by blast
  have xnan: "created_at x \<noteq> NaN" using Cons.prems(1) by simp
  have xy: "\<not> num_lt (created_at y) (created_at x)"
    using yin Cons.prems(2) by (auto simp: not_after_def dest: num_lt_asym)
  have yx: "\<not> num_lt (created_at x) (created_at y)"
    using xin Cons.prems(3) ys by (auto simp: not_after_def dest: num_lt_asym)
  have key: "created_at x = created_at y" using num_antisym [OF xnan ynan yx xy] .
  have head: "x = y" using same [of "created_at x"] key by (simp add: ys)
  have tails: "\<forall>t. ?f t xs = ?f t ys'"
  proof
    fix t show "?f t xs = ?f t ys'" using same [of t] head by (cases "created_at x = t") (simp_all add: ys)
  qed
  have "xs = ys'"
    using Cons.IH [of ys'] Cons.prems(1,2,3) tails by (simp add: ys)
  with head ys show ?case by simp
qed

text \<open>
  C8.  On every array of backups the sort of the cycle returns (the comparator does not
  throw), and returns one array for one input: a rearrangement of the input in which, for
  every timestamp, the backups with that \<open>created_at\<close> stand in the order they had in the
  input.  When the backups are ones the constructor can produce, the result is ascending,
  and it is the only ascending array that keeps these orders: every run of a stable sort
  on the same input gives it.
\<close>

theorem sort_is_stable:
  "\<exists>srt. Array_sort by_created_at (map BackupInstance bs) = Inr (map BackupInstance srt) \<and>
      mset srt = mset bs \<and>
      (\<forall>t. filter (\<lambda>b. created_at b = t) srt = filter (\<lambda>b. created_at b = t) bs) \<and>
      ((\<forall>b\<in>set bs. constructed b) \<longrightarrow>
         sorted_wrt not_after srt \<and>
         (\<forall>ys. sorted_wrt not_after ys \<and>
               (\<forall>t. filter (\<lambda>b. created_at b = t) ys = filter (\<lambda>b. created_at b = t) bs)
               \<longrightarrow> ys = srt))"
proof (intro exI conjI impI allI)
  show "Array_sort by_created_at (map BackupInstance bs) = Inr (map BackupInstance (sort_backups bs))"
    by (rule Array_sort_backups)
  show "mset (sort_backups bs) = mset bs" by (rule mset_sort_backups)
  show "filter (\<lambda>b. created_at b = t) (sort_backups bs) = filter (\<lambda>b. created_at b = t) bs" for t
    by (rule stable_sort_backups)
next
  assume valid: "\<forall>b\<in>set bs. constructed b"
  then have nan: "\<forall>y\<in>set bs. created_at y \<noteq> NaN" by (simp add: constructed_not_NaN)
  then show asc: "sorted_wrt not_after (sort_backups bs)" by (rule sorted_sort_backups)
  fix ys
  assume ys: "sorted_wrt not_after ys \<and>
     (\<forall>t. filter (\<lambda>b. created_at b = t) ys = filter (\<lambda>b. created_at b = t) bs)"
  have "sort_backups bs = ys"
  proof (rule stable_sorted_unique)
    show "\<forall>x\<in>set (sort_backups bs). created_at x \<noteq> NaN" using nan by (simp add: set_sort_backups)
    show "sorted_wrt not_after (sort_backups bs)" by (rule asc)
    show "sorted_wrt not_after ys" using ys by simp
    show "\<forall>t. filter (\<lambda>b. created_at b = t) (sort_backups bs) = filter (\<lambda>b. created_at b = t) ys"
      using ys by (simp add: stable_sort_backups)
  qed
  then show "ys = sort_backups bs" by simp
qed

lemma tied_constructed: "\<forall>b\<in>set tied_backups. constructed b"
  by (simp add: tied_backups_def example_backup_def constructed_def Backup_constructor_def)

lemma tied_sorted:
  "Array_sort by_created_at (map BackupInstance tied_backups)
     = Inr (map BackupInstance [example_backup ''y'' 100, example_backup ''x'' 200, example_backup ''z'' 200])"
  by (simp add: Array_sort_def by_created_at_def read_property_def tied_backups_def
      example_backup_def num_gt_def num_sub_def)

theorem sort_is_stable_witness:
  "Array_sort by_created_at (map BackupInstance tied_backups)
     = Inr (map BackupInstance [example_backup ''y'' 100, example_backup ''x'' 200, example_backup ''z'' 200]) \<and>
   filter (\<lambda>b. created_at b = Finite 200)
       [example_backup ''y'' 100, example_backup ''x'' 200, example_backup ''z'' 200]
     = filter (\<lambda>b. created_at b = Finite 200) tied_backups \<and>
   sorted_wrt not_after [example_backup ''y'' 100, example_backup ''x'' 200, example_backup ''z'' 200]"
proof -
  from sort_is_stable [of tied_backups] tied_constructed obtain srt where
    srt: "Array_sort by_created_at (map BackupInstance tied_backups) = Inr (map BackupInstance srt)"
    and stable: "\<forall>t. filter (\<lambda>b. created_at b = t) srt = filter (\<lambda>b. created_at b = t) tied_backups"
    and asc: "sorted_wrt not_after srt"
    by blast
  from srt tied_sorted
  have "map BackupInstance srt
      = map BackupInstance [example_backup ''y'' 100, example_backup ''x'' 200, example_backup ''z'' 200]"
    by simp
  then have "srt = [example_backup ''y'' 100, example_backup ''x'' 200, example_backup ''z'' 200]"
    by (simp add: map_eq_Cons_conv)
  with stable asc tied_sorted show ?thesis by blast
qed

section \<open>Properties of one cycle\<close>

lemma find_not_Backup:
  "List.find (\<lambda>backup. \<not> instanceof_Backup backup) (map BackupInstance bs) = None"
  by (induction bs) simp_all

lemma list_of_backups_accepted: "\<not> list_is_rejected (Array (map BackupInstance bs))"
  by (simp add: list_is_rejected_def Array_find_def find_not_Backup)

text \<open>With a limit that is an integer, the overflow is the integer \<open>N - L + 1\<close>.\<close>

lemma overflow_of_integers:
  assumes "js_get opts ''limit'' = Number (Finite (of_nat L))"
  shows "overflow_of xs opts = Finite (of_int (int (length xs) - int L + 1))"
  by (simp add: overflow_of_def assms num_sub_def)

lemma overflow_positive:
  assumes "js_get opts ''limit'' = Number (Finite (of_nat L))"
  shows "num_gt (overflow_of xs opts) (Finite 0) \<longleftrightarrow> L \<le> length xs"
proof -
  have "(0::rat) < of_int (int (length xs) - int L + 1) \<longleftrightarrow> 0 < int (length xs) - int L + 1"
    by (simp only: of_int_0_less_iff)
  then show ?thesis
    unfolding overflow_of_integers [OF assms] num_gt_def by auto
qed

lemma slice_overflow:
  assumes "js_get opts ''limit'' = Number (Finite (of_nat L))" "L \<le> length xs"
  shows "Array_slice_to xs (overflow_of xs opts) = take (length xs + 1 - L) xs"
proof -
  have n: "nat (int (length xs) - int L + 1) = length xs + 1 - L" using assms(2) by linarith
  have p: "(0::rat) \<le> of_int (int (length xs) - int L + 1)" using assms(2) by simp
  have "ToInteger (of_int (int (length xs) - int L + 1)) = int (length xs) - int L + 1"
    unfolding ToInteger_def using p by (simp only: if_True floor_of_int)
  then show ?thesis
    unfolding overflow_of_integers [OF assms(1)] using assms(2) n by simp
qed

text \<open>The \<open>try\<close> block when \<open>list\<close> throws, and when it returns \<open>false\<close>.\<close>

lemma run_list_throws:
  assumes "list_operation b [] w = (Throws e, w1)"
  shows "run b (cycle_try_A opts) w evs = (Inl e, w1, evs @ [Called (Call_list [])])"
    and "run b (cycle_try_B opts) w evs = (Inl e, w1, evs @ [Called (Call_list [])])"
  using assms by (simp_all add: cycle_try_A_def cycle_try_B_def await_def)

lemma run_B_false:
  assumes "list_operation b [] w = (Returns (Boolean False), w1)"
    and "create_operation b [] w1 = (r, w2)"
  shows "run b (cycle_try_B opts) w evs =
     ((case r of Throws e \<Rightarrow> Inl e | Returns _ \<Rightarrow> Inr ()), w2,
      evs @ [Called (Call_list []), Called (Call_create [])])"
  using assms by (simp add: cycle_try_B_def await_def split: outcome.splits)

lemma run_A_false:
  assumes "list_operation b [] w = (Returns (Boolean False), w1)"
  shows \<open>run b (cycle_try_A opts) w evs =
     (Inl (Error ''BackupScheduler -> The "list" function must return an Array of "Backup" instances.''),
      w1, evs @ [Called (Call_list [])])\<close>
  using assms by (simp add: cycle_try_A_def await_def list_is_rejected_def)

text \<open>The \<open>try\<close> block when \<open>list\<close> returns an array of backups and the limit is an integer.\<close>

lemma run_B_array:
  assumes list: "list_operation b [] w = (Returns (Array (map BackupInstance bs)), w1)"
    and limit: "js_get opts ''limit'' = Number (Finite (of_nat L))"
    and create: "create_operation b [] w1 = (rc, w2)"
    and delete: "delete_operation b
        [Array (map BackupInstance (take (length bs + 1 - L) (sort_backups bs)))] w2 = (rd, w3)"
  shows "run b (cycle_try_B opts) w evs =
     (case rc of
        Throws e \<Rightarrow> (Inl e, w2, evs @ [Called (Call_list []), Called (Call_create [])])
      | Returns v \<Rightarrow>
          if L \<le> length bs then
            ((case rd of Throws e \<Rightarrow> Inl e | Returns _ \<Rightarrow> Inr ()), w3,
             evs @ [Called (Call_list []), Called (Call_create []),
                    Called (Call_delete
                      [Array (map BackupInstance (take (length bs + 1 - L) (sort_backups bs)))])])
          else (Inr (), w2, evs @ [Called (Call_list []), Called (Call_create [])]))"
proof -
  let ?srt = "map BackupInstance (sort_backups bs)"
  have len: "length ?srt = length bs" by (simp add: length_sort_backups)
  have pos: "num_gt (overflow_of ?srt opts) (Finite 0) \<longleftrightarrow> L \<le> length bs"
    using overflow_positive [OF limit, of ?srt] len by simp
  have slice: "L \<le> length bs \<Longrightarrow>
      Array_slice_to ?srt (overflow_of ?srt opts)
        = map BackupInstance (take (length bs + 1 - L) (sort_backups bs))"
    using slice_overflow [OF limit, of ?srt] len by (simp add: take_map)
  show ?thesis
    using list create delete
    by (simp add: cycle_try_B_def await_def list_of_backups_accepted Array_sort_backups pos slice
        split: outcome.splits)
qed

lemma run_A_array:
  assumes list: "list_operation b [] w = (Returns (Array (map BackupInstance bs)), w1)"
    and limit: "js_get opts ''limit'' = Number (Finite (of_nat L))"
    and create: "create_operation b [] w1 = (rc, w2)"
    and delete: "delete_operation b
        [Array (map BackupInstance (take (length bs + 1 - L) (sort_backups bs)))] w2 = (rd, w3)"
  shows \<open>run b (cycle_try_A opts) w evs =
     (case rc of
        Throws e \<Rightarrow> (Inl e, w2, evs @ [Called (Call_list []), Called (Call_create [])])
      | Returns v \<Rightarrow>
          if \<not> instanceof_Backup v then
            (Inl (Error ''BackupScheduler -> The "create" function must create and return a "Backup" instance.''),
             w2, evs @ [Called (Call_list []), Called (Call_create [])])
          else if L \<le> length bs then
            ((case rd of Throws e \<Rightarrow> Inl e | Returns _ \<Rightarrow> Inr ()), w3,
             evs @ [Called (Call_list []), Called (Call_create []),
                    Called (Call_delete
                      [Array (map BackupInstance (take (length bs + 1 - L) (sort_backups bs)))])])
          else (Inr (), w2, evs @ [Called (Call_list []), Called (Call_create [])]))\<close>
proof -
  let ?srt = "map BackupInstance (sort_backups bs)"
  have len: "length ?srt = length bs" by (simp add: length_sort_backups)
  have pos: "num_gt (overflow_of ?srt opts) (Finite 0) \<longleftrightarrow> L \<le> length bs"
    using overflow_positive [OF limit, of ?srt] len by simp
  have slice: "L \<le> length bs \<Longrightarrow>
      Array_slice_to ?srt (overflow_of ?srt opts)
        = map BackupInstance (take (length bs + 1 - L) (sort_backups bs))"
    using slice_overflow [OF limit, of ?srt] len by (simp add: take_map)
  show ?thesis
    using list create delete
    by (simp add: cycle_try_A_def await_def list_of_backups_accepted Array_sort_backups pos slice
        split: outcome.splits)
qed

text \<open>The exit reports success exactly when the \<open>try\<close> block reached its end.\<close>

lemma cycle_exit_success: "fst (cycle_exit s r) = Resolved (Boolean True) \<longleftrightarrow> r = Inr ()"
  by (cases r) (auto simp: cycle_exit_def split: prod.splits option.splits)

lemma cycle_exit_Inr: "cycle_exit s (Inr u) = (Resolved (Boolean True), s\<lparr>in_flight := False\<rparr>, [])"
  by (simp add: cycle_exit_def)

lemma cycle_idle:
  assumes "\<not> in_flight s" and "run b (body (options s)) w evs0 = (r, w', evs')"
  shows "cycle body b (s, w, evs0) =
           (fst (cycle_exit (s\<lparr>in_flight := True\<rparr>) r),
            fst (snd (cycle_exit (s\<lparr>in_flight := True\<rparr>) r)), w',
            evs' @ snd (snd (cycle_exit (s\<lparr>in_flight := True\<rparr>) r)))"
  using assms by (simp add: cycle_def split: prod.splits)

lemma cycle_success:
  assumes "\<not> in_flight s" and "cycle body b (s, w, evs0) = (Resolved (Boolean True), s', w', evs)"
  shows "run b (body (options s)) w evs0 = (Inr (), w', evs)"
proof -
  obtain r w1 evs1 where run: "run b (body (options s)) w evs0 = (r, w1, evs1)"
    by (metis prod_cases3)
  from cycle_idle [of s b body w evs0 r w1 evs1, OF assms(1) run] assms(2)
  have 1: "fst (cycle_exit (s\<lparr>in_flight := True\<rparr>) r) = Resolved (Boolean True)" and 2: "w1 = w'"
    and 3: "evs = evs1 @ snd (snd (cycle_exit (s\<lparr>in_flight := True\<rparr>) r))" by simp_all
  from 1 have r: "r = Inr ()" by (simp add: cycle_exit_success)
  with 3 have "evs = evs1" by (simp add: cycle_exit_Inr)
  with run r 2 show ?thesis by simp
qed

text \<open>
  C1.  Take a scheduler that is not in flight and whose limit is a positive integer \<open>L\<close>, a
  \<open>list\<close> that returns an array of \<open>N\<close> backups that the constructor of \<open>Backup\<close> can
  produce, and a cycle, of either revision, that reports success.  Then the snapshot
  \<open>srt\<close> that the cycle sorted is a rearrangement of the listed backups in ascending order
  of \<open>created_at\<close>; \<open>create\<close> was called once; \<open>delete\<close> was called if and only if
  \<open>N - L + 1 > 0\<close>, and then once, with the first \<open>N - L + 1\<close> backups of the snapshot,
  none of which is younger than a backup that is kept; and every backup deleted is one of
  those listed before \<open>create\<close> was called, so what \<open>create\<close> made is not among them.
\<close>

theorem retention_deletes_oldest_overflow:
  assumes idle: "\<not> in_flight s"
    and limit: "js_get (options s) ''limit'' = Number (Finite (of_nat L))" and positive: "0 < L"
    and list: "list_operation b [] w = (Returns (Array (map BackupInstance bs)), w1)"
    and valid: "\<forall>x\<in>set bs. constructed x"
    and success: "cycle_A b (s, w, []) = (Resolved (Boolean True), s', w', evs) \<or>
                  cycle_B b (s, w, []) = (Resolved (Boolean True), s', w', evs)"
  shows "\<exists>srt.
           Array_sort by_created_at (map BackupInstance bs) = Inr (map BackupInstance srt) \<and>
           mset srt = mset bs \<and> sorted_wrt not_after srt \<and>
           filter is_create_call evs = [Called (Call_create [])] \<and>
           filter is_delete_call evs =
             (if 0 < int (length bs) - int L + 1
              then [Called (Call_delete
                      [Array (map BackupInstance (take (nat (int (length bs) - int L + 1)) srt))])]
              else []) \<and>
           (\<forall>d\<in>set (take (nat (int (length bs) - int L + 1)) srt).
              \<forall>r\<in>set (drop (nat (int (length bs) - int L + 1)) srt). not_after d r) \<and>
           set (take (nat (int (length bs) - int L + 1)) srt) \<subseteq> set bs"
proof -
  let ?srt = "sort_backups bs"
  let ?k = "length bs + 1 - L"
  let ?d = "Called (Call_delete [Array (map BackupInstance (take ?k ?srt))])"
  obtain rc w2 where create: "create_operation b [] w1 = (rc, w2)" by (metis surj_pair)
  obtain rd w3 where delete:
    "delete_operation b [Array (map BackupInstance (take ?k ?srt))] w2 = (rd, w3)"
    by (metis surj_pair)
  have run: "run b (cycle_try_A (options s)) w [] = (Inr (), w', evs) \<or>
             run b (cycle_try_B (options s)) w [] = (Inr (), w', evs)"
    using success cycle_success [of s cycle_try_A b w "[]" s' w' evs, OF idle]
      cycle_success [of s cycle_try_B b w "[]" s' w' evs, OF idle]
    unfolding cycle_A_def cycle_B_def by blast
  have evs: "evs = [Called (Call_list []), Called (Call_create [])] @ (if L \<le> length bs then [?d] else [])"
    using run
    unfolding run_A_array [OF list limit create delete] run_B_array [OF list limit create delete]
    by (auto split: outcome.splits if_splits)
  have k: "nat (int (length bs) - int L + 1) = ?k" by linarith
  have c: "0 < int (length bs) - int L + 1 \<longleftrightarrow> L \<le> length bs" by linarith
  have sub: "set (take ?k ?srt) \<subseteq> set bs"
    using set_take_subset [of ?k ?srt] by (simp add: set_sort_backups)
  have asc: "sorted_wrt not_after ?srt"
    using valid by (simp add: sorted_sort_backups constructed_not_NaN)
  have "sorted_wrt not_after (take ?k ?srt @ drop ?k ?srt)" using asc by simp
  then have oldest: "\<forall>d\<in>set (take ?k ?srt). \<forall>r\<in>set (drop ?k ?srt). not_after d r"
    by (simp only: sorted_wrt_append) blast
  show ?thesis
    apply (rule exI [of _ ?srt])
    unfolding k c using evs sub asc oldest by (simp add: Array_sort_backups mset_sort_backups)
qed

lemma four_constructed: "\<forall>x\<in>set four_backups. constructed x"
  by (simp add: four_backups_def example_backup_def constructed_def Backup_constructor_def)

lemma example_limit:
  "js_get (options (example_scheduler (of_nat L))) ''limit'' = Number (Finite (of_nat L))"
  by (simp add: example_scheduler_def example_options_def)

lemma example_idle: "\<not> in_flight (example_scheduler l)"
  by (simp add: example_scheduler_def)

lemma scripted_operations:
  "list_operation (scripted rl rc rd) args w = (rl, w)"
  "create_operation (scripted rl rc rd) args w = (rc, w)"
  "delete_operation (scripted rl rc rd) args w = (rd, w)"
  by (simp_all add: scripted_def)

text \<open>
  The example of the specification, the listing shuffled: limit 3 and four backups of
  times 300, 100, 400 and 200.  The cycle of the second revision, run by evaluation of
  its definition, succeeds and deletes the backups of times 100 and 200.
\<close>

lemma example_cycle_B:
  "cycle_B (scripted (Returns (Array (map BackupInstance four_backups))) (Returns Undefined)
              (Returns Undefined))
      (example_scheduler (of_nat 3), (), [])
   = (Resolved (Boolean True), example_scheduler (of_nat 3), (),
      [Called (Call_list []), Called (Call_create []),
       Called (Call_delete [Array [BackupInstance (example_backup ''A'' 100),
                                   BackupInstance (example_backup ''B'' 200)]])])"
  by (simp add: cycle_B_def cycle_def cycle_try_B_def await_def scripted_def example_scheduler_def
      example_options_def cycle_exit_def list_is_rejected_def Array_find_def Array_sort_def
      by_created_at_def read_property_def overflow_of_def four_backups_def example_backup_def
      num_gt_def num_sub_def ToInteger_def)

theorem retention_deletes_oldest_overflow_witness:
  "\<exists>srt.
     Array_sort by_created_at (map BackupInstance four_backups) = Inr (map BackupInstance srt) \<and>
     mset srt = mset four_backups \<and> sorted_wrt not_after srt \<and>
     filter is_create_call
       [Called (Call_list []), Called (Call_create []),
        Called (Call_delete [Array [BackupInstance (example_backup ''A'' 100),
                                    BackupInstance (example_backup ''B'' 200)]])]
       = [Called (Call_create [])] \<and>
     [Called (Call_delete [Array [BackupInstance (example_backup ''A'' 100),
                                  BackupInstance (example_backup ''B'' 200)]])]
       = [Called (Call_delete [Array (map BackupInstance (take 2 srt))])] \<and>
     (\<forall>d\<in>set (take 2 srt). \<forall>r\<in>set (drop 2 srt). not_after d r) \<and>
     set (take 2 srt) \<subseteq> set four_backups"
proof -
  have len: "length four_backups = 4" by (simp add: four_backups_def)
  have pos: "0 < (3::nat)" by simp
  show ?thesis
    using retention_deletes_oldest_overflow
      [OF example_idle example_limit pos scripted_operations(1) four_constructed
          disjI2 [OF example_cycle_B]]
    by (simp add: len)
qed

section \<open>A list that returns false\<close>

lemma cycle_B_false:
  assumes idle: "\<not> in_flight s"
    and list: "list_operation b [] w = (Returns (Boolean False), w1)"
    and create: "create_operation b [] w1 = (rc, w2)"
  shows "cycle_B b (s, w, evs0) =
     (case cycle_exit (s\<lparr>in_flight := True\<rparr>) (case rc of Throws e \<Rightarrow> Inl e | Returns _ \<Rightarrow> Inr ()) of
        (res, s', evs) \<Rightarrow> (res, s', w2, evs0 @ [Called (Call_list []), Called (Call_create [])] @ evs))"
  using idle by (simp add: cycle_B_def cycle_def run_B_false [OF list create] split: prod.splits)

lemma cycle_A_false:
  assumes idle: "\<not> in_flight s"
    and list: "list_operation b [] w = (Returns (Boolean False), w1)"
  shows \<open>cycle_A b (s, w, evs0) =
     (case cycle_exit (s\<lparr>in_flight := True\<rparr>)
             (Inl (Error ''BackupScheduler -> The "list" function must return an Array of "Backup" instances.'')) of
        (res, s', evs) \<Rightarrow> (res, s', w1, evs0 @ [Called (Call_list [])] @ evs))\<close>
  using idle by (simp add: cycle_A_def cycle_def run_A_false [OF list] split: prod.splits)

text \<open>Emitting an error calls listeners and no backend operation.\<close>

lemma call_listeners_events:
  "call_listeners ls i err = (evs, r) \<Longrightarrow> e \<in> set evs \<Longrightarrow> \<exists>j. e = Delivered j err"
proof (induction ls arbitrary: i evs r)
  case Nil
  then show ?case by simp
next
  case (Cons l ls)
  show ?case
  proof (cases "l err")
    case None
    obtain evs' r' where rec: "call_listeners ls (Suc i) err = (evs', r')" by (metis surj_pair)
    with Cons.prems None have "evs = Delivered i err # evs'" by simp
    with Cons.prems(2) Cons.IH [OF rec] show ?thesis by auto
  next
    case (Some thrown)
    with Cons.prems show ?thesis by auto
  qed
qed

lemma emit_error_events:
  "emit_error ls err = (evs, r) \<Longrightarrow> e \<in> set evs \<Longrightarrow> \<exists>j. e = Delivered j err"
  using call_listeners_events [of ls 0 err evs r e] by (auto simp: emit_error_def split: if_splits)

lemma cycle_exit_events:
  assumes "e \<in> set (snd (snd (cycle_exit s r)))"
  shows "\<not> is_list_call e \<and> \<not> is_create_call e \<and> \<not> is_delete_call e"
proof (cases r)
  case (Inl err)
  obtain evs t where em: "emit_error (error_listeners s) err = (evs, t)" by (metis surj_pair)
  with assms Inl have "e \<in> set evs" by (cases t) (simp_all add: cycle_exit_def)
  with emit_error_events [OF em] obtain j where "e = Delivered j err" by blast
  then show ?thesis by simp
next
  case (Inr u)
  with assms show ?thesis by (simp add: cycle_exit_def)
qed

lemma filter_none: "(\<And>e. e \<in> set xs \<Longrightarrow> \<not> P e) \<Longrightarrow> filter P xs = []"
  by (induction xs) auto

lemma cycle_exit_no_success: "fst (cycle_exit s (Inl e)) \<noteq> Resolved (Boolean True)"
  by (simp add: cycle_exit_success)

text \<open>
  C3, as stated, fails twice.  In the second revision, when \<open>list\<close> returns \<open>false\<close> and
  \<open>create\<close> throws, the cycle reports failure, not success (the scheduler here has a
  listener that returns, so the error is delivered and \<open>false\<close> is returned).  In the
  first revision a \<open>list\<close> that returns \<open>false\<close> fails the test \<open>Array.isArray\<close>: \<open>create\<close>
  is not called at all.
\<close>

theorem list_false_counterexample:
  "fst (cycle_B (scripted (Returns (Boolean False)) (Throws (Error ''disk full'')) (Returns Undefined))
          (on_error returning_listener (example_scheduler 5), (), []))
     = Resolved (Boolean False) \<and>
   filter is_create_call
     (snd (snd (snd (cycle_A (scripted (Returns (Boolean False)) (Returns Undefined) (Returns Undefined))
          (on_error returning_listener (example_scheduler 5), (), [])))))
     = []"
  by (simp add: cycle_A_def cycle_B_def cycle_def cycle_try_A_def cycle_try_B_def await_def
      scripted_def example_scheduler_def on_error_def returning_listener_def cycle_exit_def
      emit_error_def list_is_rejected_def)

text \<open>
  C3, amended.  Take a scheduler that is not in flight and a \<open>list\<close> that returns \<open>false\<close>.
  In the second revision \<open>create\<close> is called exactly once, with no argument, \<open>delete\<close> is not
  called, and the cycle reports success if and only if \<open>create\<close> returns.  In the first
  revision neither \<open>create\<close> nor \<open>delete\<close> is called and the cycle does not report success.
\<close>

theorem list_false_skips_deletion:
  assumes idle: "\<not> in_flight s"
    and list: "list_operation b [] w = (Returns (Boolean False), w1)"
    and create: "create_operation b [] w1 = (rc, w2)"
  shows "filter is_create_call (snd (snd (snd (cycle_B b (s, w, []))))) = [Called (Call_create [])] \<and>
         filter is_delete_call (snd (snd (snd (cycle_B b (s, w, []))))) = [] \<and>
         (fst (cycle_B b (s, w, [])) = Resolved (Boolean True) \<longleftrightarrow> (\<exists>v. rc = Returns v)) \<and>
         filter is_create_call (snd (snd (snd (cycle_A b (s, w, []))))) = [] \<and>
         filter is_delete_call (snd (snd (snd (cycle_A b (s, w, []))))) = [] \<and>
         fst (cycle_A b (s, w, [])) \<noteq> Resolved (Boolean True)"
proof -
  let ?rB = "case rc of Throws e \<Rightarrow> Inl e | Returns _ \<Rightarrow> Inr ()"
  let ?xB = "cycle_exit (s\<lparr>in_flight := True\<rparr>) ?rB"
  let ?xA = \<open>cycle_exit (s\<lparr>in_flight := True\<rparr>)
             (Inl (Error ''BackupScheduler -> The "list" function must return an Array of "Backup" instances.''))\<close>
  have B: "cycle_B b (s, w, []) =
      (fst ?xB, fst (snd ?xB), w2, [Called (Call_list []), Called (Call_create [])] @ snd (snd ?xB))"
    unfolding cycle_B_false [OF idle list create] by (simp split: prod.splits)
  have A: "cycle_A b (s, w, []) = (fst ?xA, fst (snd ?xA), w1, [Called (Call_list [])] @ snd (snd ?xA))"
    unfolding cycle_A_false [OF idle list] by (simp split: prod.splits)
  have nB: "filter is_create_call (snd (snd ?xB)) = []" "filter is_delete_call (snd (snd ?xB)) = []"
    using cycle_exit_events [of _ "s\<lparr>in_flight := True\<rparr>" ?rB] by (simp_all add: filter_none)
  have nA: "filter is_create_call (snd (snd ?xA)) = []" "filter is_delete_call (snd (snd ?xA)) = []"
    using cycle_exit_events [of _ "s\<lparr>in_flight := True\<rparr>"] by (simp_all add: filter_none)
  have sB: "fst ?xB = Resolved (Boolean True) \<longleftrightarrow> (\<exists>v. rc = Returns v)"
    unfolding cycle_exit_success by (cases rc) simp_all
  show ?thesis
    unfolding A B using nA nB sB cycle_exit_no_success by simp
qed

theorem list_false_skips_deletion_witness:
  "filter is_create_call (snd (snd (snd
      (cycle_B (scripted (Returns (Boolean False)) (Returns Undefined) (Returns Undefined))
         (example_scheduler 5, (), []))))) = [Called (Call_create [])] \<and>
   filter is_delete_call (snd (snd (snd
      (cycle_B (scripted (Returns (Boolean False)) (Returns Undefined) (Returns Undefined))
         (example_scheduler 5, (), []))))) = [] \<and>
   fst (cycle_B (scripted (Returns (Boolean False)) (Returns Undefined) (Returns Undefined))
         (example_scheduler 5, (), [])) = Resolved (Boolean True) \<and>
   fst (cycle_A (scripted (Returns (Boolean False)) (Returns Undefined) (Returns Undefined))
         (example_scheduler 5, (), [])) \<noteq> Resolved (Boolean True)"
  using list_false_skips_deletion
    [where s = "example_scheduler 5"
       and b = "scripted (Returns (Boolean False)) (Returns Undefined) (Returns Undefined)"
       and w = "()" and ?w1.0 = "()" and rc = "Returns Undefined" and ?w2.0 = "()",
     OF example_idle scripted_operations(1) scripted_operations(2)]
  by simp

section \<open>The arguments of list\<close>

text \<open>
  In both revisions the events of the \<open>try\<close> block start with the call of \<open>list\<close>, which
  is given no argument; then \<open>create\<close> may be called, with no argument, and then \<open>delete\<close>,
  with one.  No operation is called twice.
\<close>

lemma run_A_shape:
  "\<exists>new. snd (snd (run b (cycle_try_A opts) w evs)) = evs @ Called (Call_list []) # new \<and>
     (new = [] \<or> new = [Called (Call_create [])] \<or>
      (\<exists>x. new = [Called (Call_create []), Called (Call_delete [x])]))"
  by (auto simp: cycle_try_A_def await_def split: prod.splits outcome.splits sum.splits)

lemma run_B_shape:
  "\<exists>new. snd (snd (run b (cycle_try_B opts) w evs)) = evs @ Called (Call_list []) # new \<and>
     (new = [] \<or> new = [Called (Call_create [])] \<or>
      (\<exists>x. new = [Called (Call_create []), Called (Call_delete [x])]))"
  by (auto simp: cycle_try_B_def await_def split: prod.splits outcome.splits sum.splits)

text \<open>
  The disk backend's \<open>list\<close> returns \<open>false\<close> when it is given a limit above the number of
  entries, and never when its argument is \<open>undefined\<close>, which is how the core and the
  constructor's arrow function call it.
\<close>

lemma disk_list_with_limit:
  "length files < L \<Longrightarrow>
   DiskBackupScheduler_list (Number (Finite (of_nat L))) files = Returns (Boolean False)"
  by (simp add: DiskBackupScheduler_list_def)

lemma disk_list_without_limit: "Disk_options_list args files \<noteq> Returns (Boolean False)"
  by (simp add: Disk_options_list_def DiskBackupScheduler_list_def split: sum.splits)

text \<open>
  C5 does not hold of the code: \<open>cycle\<close> calls \<open>this.options.list()\<close> with no argument, in
  both revisions, although the documentation of \<open>list\<close> in the second revision says that
  the limit is its first argument.  Here the limit is 5 and the listing is empty: \<open>list\<close>
  is called with the empty list of arguments.  The disk backend, asked through the
  function its constructor installs, lists an empty directory as the empty array; given
  the limit 5 it would have returned \<open>false\<close>.
\<close>

theorem list_called_without_limit:
  "snd (snd (snd (cycle_B (scripted (Returns (Array [])) (Returns Undefined) (Returns Undefined))
      (example_scheduler 5, (), [])))) = [Called (Call_list []), Called (Call_create [])] \<and>
   snd (snd (snd (cycle_A (scripted (Returns (Array []))
        (Returns (BackupInstance (example_backup ''new'' 9))) (Returns Undefined))
      (example_scheduler 5, (), [])))) = [Called (Call_list []), Called (Call_create [])] \<and>
   Disk_options_list [] [] = Returns (Array []) \<and>
   DiskBackupScheduler_list (Number (Finite 5)) [] = Returns (Boolean False)"
  by (simp add: cycle_A_def cycle_B_def cycle_def cycle_try_A_def cycle_try_B_def await_def
      scripted_def example_scheduler_def cycle_exit_def list_is_rejected_def Array_find_def
      Array_sort_def overflow_of_def example_options_def num_sub_def num_gt_def
      Disk_options_list_def DiskBackupScheduler_list_def)

section \<open>Errors in a cycle\<close>

text \<open>Listeners that all return are each called once, in order, and \<open>emit\<close> returns.\<close>

lemma call_listeners_returning:
  "\<forall>l\<in>set ls. l e = None \<Longrightarrow>
   call_listeners ls i e = (map (\<lambda>j. Delivered j e) [i..<i + length ls], None)"
proof (induction ls arbitrary: i)
  case Nil
  then show ?case by simp
next
  case (Cons l ls)
  then have "call_listeners ls (Suc i) e = (map (\<lambda>j. Delivered j e) [Suc i..<Suc i + length ls], None)"
    by simp
  moreover have "[i..<i + length (l # ls)] = i # [Suc i..<Suc i + length ls]"
    by (simp add: upt_rec)
  ultimately show ?case using Cons.prems by simp
qed

lemma emit_error_returning:
  "ls \<noteq> [] \<Longrightarrow> \<forall>l\<in>set ls. l e = None \<Longrightarrow>
   emit_error ls e = (map (\<lambda>j. Delivered j e) [0..<length ls], None)"
  using call_listeners_returning [of ls e 0] by (simp add: emit_error_def)

text \<open>
  What holds of the error handling: when at least one listener of \<open>'error'\<close> is registered
  and the listeners return, a cycle of a scheduler that is not in flight resolves, with
  \<open>true\<close> at the end of the \<open>try\<close> block and with \<open>false\<close> after an error, which every
  listener is given once; and the scheduler is not in flight afterwards.
\<close>

lemma cycle_with_returning_listeners:
  assumes idle: "\<not> in_flight s"
    and some: "error_listeners s \<noteq> []"
    and returning: "\<forall>l\<in>set (error_listeners s). \<forall>e. l e = None"
    and run: "run b (body (options s)) w evs0 = (r, w', evs')"
  shows "cycle body b (s, w, evs0) =
     (case r of
        Inr _ \<Rightarrow> (Resolved (Boolean True), s, w', evs')
      | Inl e \<Rightarrow> (Resolved (Boolean False), s, w',
                  evs' @ map (\<lambda>j. Delivered j e) [0..<length (error_listeners s)]))"
proof (cases r)
  case (Inl e)
  have "emit_error (error_listeners s) e
      = (map (\<lambda>j. Delivered j e) [0..<length (error_listeners s)], None)"
    using emit_error_returning [OF some] returning by blast
  then show ?thesis using idle run Inl by (simp add: cycle_def cycle_exit_def)
next
  case (Inr u)
  then show ?thesis using idle run by (simp add: cycle_def cycle_exit_def)
qed

text \<open>With no listener, \<open>emit\<close> throws, and the exit of \<open>cycle\<close> rejects without clearing the flag.\<close>

lemma cycle_exit_without_listener:
  "error_listeners s = [] \<Longrightarrow> cycle_exit s (Inl e) = (Rejected (unhandled_error e), s, [])"
  by (simp add: cycle_exit_def emit_error_def)

text \<open>
  C4 does not hold of the code.  The scheduler is as its constructor returns it, so no
  listener of \<open>'error'\<close> is registered, and \<open>list\<close> throws.  The error is caught, and
  \<open>emit\<close> throws it again inside the \<open>catch\<close>: the promise of \<open>cycle\<close> is rejected with the
  error, in both revisions, where the documentation of \<open>cycle\<close> says that the method
  will not throw any errors.
\<close>

theorem error_escapes_cycle:
  "cycle_A (scripted (Throws (Error ''list failed'')) (Returns Undefined) (Returns Undefined))
      (example_scheduler 3, (), [])
     = (Rejected (Error ''list failed''), (example_scheduler 3)\<lparr>in_flight := True\<rparr>, (),
        [Called (Call_list [])]) \<and>
   cycle_B (scripted (Throws (Error ''list failed'')) (Returns Undefined) (Returns Undefined))
      (example_scheduler 3, (), [])
     = (Rejected (Error ''list failed''), (example_scheduler 3)\<lparr>in_flight := True\<rparr>, (),
        [Called (Call_list [])])"
  by (simp add: cycle_A_def cycle_B_def cycle_def cycle_try_A_def cycle_try_B_def await_def
      scripted_def example_scheduler_def cycle_exit_def emit_error_def)

text \<open>
  C6 does not hold of the code.  After the cycle above, in which \<open>create\<close> throws this
  time, the scheduler is still in flight: the statement that clears the flag stands after
  the \<open>catch\<close>, which was left by the exception of \<open>emit\<close>.  The next call of \<open>cycle\<close>,
  with a backend that works, returns \<open>false\<close> at the guard and calls nothing.
\<close>

theorem in_flight_not_cleared:
  "in_flight (fst (snd (cycle_B
      (scripted (Returns (Boolean False)) (Throws (Error ''disk full'')) (Returns Undefined))
      (example_scheduler 3, (), [])))) \<and>
   cycle_B (scripted (Returns (Boolean False)) (Returns Undefined) (Returns Undefined))
     (fst (snd (cycle_B
        (scripted (Returns (Boolean False)) (Throws (Error ''disk full'')) (Returns Undefined))
        (example_scheduler 3, (), []))), (), [])
     = (Resolved (Boolean False), (example_scheduler 3)\<lparr>in_flight := True\<rparr>, (), [])"
  by (simp add: cycle_B_def cycle_def cycle_try_B_def await_def scripted_def
      example_scheduler_def cycle_exit_def emit_error_def)

section \<open>At most one cycle at a time\<close>

lemma single_flight_advance:
  assumes "awaiting sys = []" and "in_flight (sched sys)"
  shows "single_flight (advance p sys)"
  using assms by (cases p) (simp_all add: single_flight_def advance_def split: prod.splits)

lemma single_flight_invoke:
  assumes "single_flight sys"
  shows "single_flight (invoke body sys)"
proof (cases "in_flight (sched sys)")
  case True
  with assms show ?thesis by (simp add: invoke_def single_flight_def)
next
  case False
  with assms have "awaiting sys = []" by (auto simp: single_flight_def)
  then show ?thesis using False by (simp add: invoke_def single_flight_advance)
qed

lemma single_flight_step:
  assumes "single_flight sys"
  shows "single_flight (step body sys i)"
proof (cases i)
  case Timer_fires
  then show ?thesis using assms by (simp add: single_flight_invoke)
next
  case Manual_cycle
  then show ?thesis using assms by (simp add: single_flight_invoke)
next
  case (Settles n r)
  show ?thesis
  proof (cases "n < length (awaiting sys)")
    case True
    with assms have one: "length (awaiting sys) = 1" and n: "n = 0" and fl: "in_flight (sched sys)"
      by (auto simp: single_flight_def)
    then have "drop_nth n (awaiting sys) = []"
      by (cases "awaiting sys") (simp_all add: drop_nth_def)
    then show ?thesis using Settles True fl by (simp add: single_flight_advance)
  next
    case False
    then show ?thesis using Settles assms by simp
  qed
next
  case Destroy
  then show ?thesis using assms by (simp add: single_flight_def destroy_def)
qed

lemma single_flight_started: "single_flight (started s)"
  by (simp add: single_flight_def started_def)

lemma single_flight_reachable: "single_flight (foldl (step body) (started s) inputs)"
proof (induction inputs rule: rev_induct)
  case Nil
  then show ?case by (simp add: single_flight_started)
next
  case (snoc i inputs)
  then show ?case by (simp add: single_flight_step)
qed

lemma cycle_in_flight:
  "in_flight s \<Longrightarrow> cycle body b (s, w, evs) = (Resolved (Boolean False), s, w, evs)"
  by (simp add: cycle_def)

text \<open>
  C2.  Let the scheduler be started and let the timer fire, \<open>cycle\<close> be called by hand,
  backend calls settle and \<open>destroy\<close> be called, in any order and any number of times.  In
  the state reached at most one activation of \<open>cycle\<close> awaits a backend call.  And when
  the scheduler is in flight there, a call of \<open>cycle\<close>, by hand or from the timer, changes
  nothing but for the promise it returns, resolved with \<open>false\<close>: no operation is called,
  no event is added, the scheduler and the suspended activation are as they were.  The
  same is said by \<open>cycle\<close> run against a backend, in both revisions.
\<close>

theorem single_flight_guard:
  assumes reach: "sys = foldl (step body) (started s0) inputs"
  shows "length (awaiting sys) \<le> 1 \<and>
         (in_flight (sched sys) \<longrightarrow>
            step body sys Manual_cycle
              = sys\<lparr>settlements := settlements sys @ [Resolved (Boolean False)]\<rparr> \<and>
            step body sys Timer_fires =
              (if interval_timer (sched sys) = None then sys
               else sys\<lparr>settlements := settlements sys @ [Resolved (Boolean False)]\<rparr>) \<and>
            cycle_A b (sched sys, w, evs) = (Resolved (Boolean False), sched sys, w, evs) \<and>
            cycle_B b (sched sys, w, evs) = (Resolved (Boolean False), sched sys, w, evs))"
  using single_flight_reachable [of body s0 inputs]
  unfolding reach [symmetric]
  by (simp add: single_flight_def invoke_def cycle_A_def cycle_B_def cycle_in_flight)

text \<open>
  A run: \<open>cycle\<close> is called by hand, then the timer fires, then \<open>cycle\<close> is called by hand
  again, all before \<open>list\<close> settles.  The scheduler is in flight, one activation awaits,
  \<open>list\<close> was called once, and the two later calls resolved with \<open>false\<close>.
\<close>

lemma example_interleaving:
  "in_flight (sched (foldl (step cycle_try_B) (started (example_scheduler 3))
      [Manual_cycle, Timer_fires, Manual_cycle])) \<and>
   length (awaiting (foldl (step cycle_try_B) (started (example_scheduler 3))
      [Manual_cycle, Timer_fires, Manual_cycle])) = 1 \<and>
   trace (foldl (step cycle_try_B) (started (example_scheduler 3))
      [Manual_cycle, Timer_fires, Manual_cycle]) = [Called (Call_list [])] \<and>
   settlements (foldl (step cycle_try_B) (started (example_scheduler 3))
      [Manual_cycle, Timer_fires, Manual_cycle])
     = [Resolved (Boolean False), Resolved (Boolean False)]"
  by (simp add: started_def example_scheduler_def invoke_def advance_def cycle_try_B_def await_def)

theorem single_flight_guard_witness:
  "in_flight (sched (foldl (step cycle_try_B) (started (example_scheduler 3))
      [Manual_cycle, Timer_fires, Manual_cycle])) \<and>
   length (awaiting (foldl (step cycle_try_B) (started (example_scheduler 3))
      [Manual_cycle, Timer_fires, Manual_cycle])) \<le> 1 \<and>
   step cycle_try_B (foldl (step cycle_try_B) (started (example_scheduler 3))
      [Manual_cycle, Timer_fires, Manual_cycle]) Manual_cycle
     = (foldl (step cycle_try_B) (started (example_scheduler 3))
          [Manual_cycle, Timer_fires, Manual_cycle])
        \<lparr>settlements := settlements (foldl (step cycle_try_B) (started (example_scheduler 3))
            [Manual_cycle, Timer_fires, Manual_cycle]) @ [Resolved (Boolean False)]\<rparr>"
proof -
  let ?sys = "foldl (step cycle_try_B) (started (example_scheduler 3))
      [Manual_cycle, Timer_fires, Manual_cycle]"
  have busy: "in_flight (sched ?sys)" using example_interleaving by (rule conjunct1)
  note guard = single_flight_guard [OF refl, of cycle_try_B "example_scheduler 3"
      "[Manual_cycle, Timer_fires, Manual_cycle]" "scripted (Returns Undefined) (Returns Undefined) (Returns Undefined)" "()" "[]"]
  from guard have one: "length (awaiting ?sys) \<le> 1" by (rule conjunct1)
  from guard busy have
    "step cycle_try_B ?sys Manual_cycle
       = ?sys\<lparr>settlements := settlements ?sys @ [Resolved (Boolean False)]\<rparr>"
    by (simp only: simp_thms)
  with busy one show ?thesis by (intro conjI)
qed

section \<open>The two accounts of a cycle agree\<close>

text \<open>
  A call of \<open>cycle\<close> that nothing interrupts, in the interleaved system, ends in the state
  that \<open>cycle\<close> run against the backend computes: same scheduler, same events, same
  settlement of the promise.
\<close>

lemma uninterrupted_advance:
  assumes "awaiting sys = []"
  shows "foldl (step body) (advance p sys) (settling_inputs b p w) =
     (case run b p w (trace sys) of
        (r, w', evs') \<Rightarrow>
          (case cycle_exit (sched sys) r of
             (res, s', evs'') \<Rightarrow>
               sys\<lparr>sched := s', trace := evs' @ evs'', settlements := settlements sys @ [res]\<rparr>))"
  using assms
proof (induction p arbitrary: sys w)
  case (Done r)
  then show ?case by (simp add: advance_def split: prod.splits)
next
  case (Await c k)
  obtain r w' where perf: "perform b c w = (r, w')" by (metis surj_pair)
  let ?sys2 = "sys\<lparr>trace := trace sys @ [Called c]\<rparr>"
  have empty: "awaiting ?sys2 = []" using Await.prems by simp
  let ?sys1 = "advance (Await c k) sys"
  have same: "sys\<lparr>awaiting := []\<rparr> = sys" using Await.prems by (cases sys) simp
  have waits: "awaiting ?sys1 = [(c, k)]" using Await.prems by (simp add: advance_def)
  have "?sys1\<lparr>awaiting := []\<rparr> = sys\<lparr>awaiting := []\<rparr>\<lparr>trace := trace sys @ [Called c]\<rparr>"
    by (simp add: advance_def)
  then have resumed: "?sys1\<lparr>awaiting := []\<rparr> = ?sys2" by (simp only: same)
  have "step body ?sys1 (Settles 0 r) = advance (k r) (?sys1\<lparr>awaiting := []\<rparr>)"
    by (simp add: waits drop_nth_def)
  then have "step body ?sys1 (Settles 0 r) = advance (k r) ?sys2" by (simp only: resumed)
  then have "foldl (step body) (advance (Await c k) sys) (settling_inputs b (Await c k) w)
      = foldl (step body) (advance (k r) ?sys2) (settling_inputs b (k r) w')"
    by (simp add: perf)
  also have "\<dots> =
     (case run b (k r) w' (trace ?sys2) of
        (r', w'', evs') \<Rightarrow>
          (case cycle_exit (sched ?sys2) r' of
             (res, s', evs'') \<Rightarrow>
               ?sys2\<lparr>sched := s', trace := evs' @ evs'',
                      settlements := settlements ?sys2 @ [res]\<rparr>))"
    using Await.IH [OF rangeI empty, of r w'] .
  finally show ?case by (simp add: perf split: prod.splits)
qed

lemma uninterrupted_cycle:
  assumes "\<not> in_flight (sched sys)" and "awaiting sys = []"
  shows "foldl (step body) sys (Manual_cycle # settling_inputs b (body (options (sched sys))) w) =
     (case cycle body b (sched sys, w, trace sys) of
        (res, s', w', evs) \<Rightarrow>
          sys\<lparr>sched := s', trace := evs, settlements := settlements sys @ [res]\<rparr>)"
proof -
  let ?sys1 = "sys\<lparr>sched := (sched sys)\<lparr>in_flight := True\<rparr>\<rparr>"
  have "awaiting ?sys1 = []" using assms(2) by simp
  from uninterrupted_advance [OF this, of body "body (options (sched sys))" b w]
  show ?thesis using assms(1) by (simp add: invoke_def cycle_def split: prod.splits)
qed

end
